theory Spec2Isabelle
  imports Complex_Main "HOL-Library.Sublist"
begin

section \<open>Text and JSON values\<close>

text \<open>
  A JavaScript string is a sequence of UTF-16 code units. The model keeps them as natural
  numbers, so that the escapes of a JSON string and the Unicode white space that
  \<^verbatim>\<open>trim()\<close> strips are what they are in the program. \<open>js ''abc''\<close> is the
  JavaScript string with the code units of the (ASCII) literal.
\<close>

type_synonym jstring = "nat list"

definition js :: "string \<Rightarrow> jstring" where
  "js s = map of_char s"

text \<open>
  The values \<^verbatim>\<open>JSON.parse\<close> produces. A number keeps its lexeme (its value is a
  double, which the model does not compute); an object keeps its members in source order, and
  a property read takes the last member of that name, as the parser's overwriting does.
\<close>

datatype json =
    JNull
  | JBool bool
  | JNum jstring
  | JStr jstring
  | JArr "json list"
  | JObj "(jstring \<times> json) list"

section \<open>The runtime's string and JSON functions\<close>

text \<open>
  The methods of \<^verbatim>\<open>String\<close> the client uses. \<open>indexOf s c\<close> is the index of the first
  code unit \<open>c\<close>, \<open>None\<close> for \<open>-1\<close>. \<^verbatim>\<open>trim()\<close> strips the white space and the
  line terminators of ECMAScript from both ends.
\<close>

definition startsWith :: "jstring \<Rightarrow> jstring \<Rightarrow> bool" where
  "startsWith s p = (take (length p) s = p)"

definition endsWith :: "jstring \<Rightarrow> jstring \<Rightarrow> bool" where
  "endsWith s p = (length p \<le> length s \<and> drop (length s - length p) s = p)"

fun indexOf :: "jstring \<Rightarrow> nat \<Rightarrow> nat option" where
  "indexOf [] c = None"
| "indexOf (x # xs) c = (if x = c then Some 0 else map_option Suc (indexOf xs c))"

fun includes_text :: "jstring \<Rightarrow> jstring \<Rightarrow> bool" where
  "includes_text [] p = (p = [])"
| "includes_text (x # xs) p = (startsWith (x # xs) p \<or> includes_text xs p)"

definition is_space :: "nat \<Rightarrow> bool" where
  "is_space c =
     (9 \<le> c \<and> c \<le> 13 \<or> c = 32 \<or> c = 160 \<or> c = 5760 \<or> 8192 \<le> c \<and> c \<le> 8202
      \<or> c = 8232 \<or> c = 8233 \<or> c = 8239 \<or> c = 8287 \<or> c = 12288 \<or> c = 65279)"

definition trim :: "jstring \<Rightarrow> jstring" where
  "trim s = rev (dropWhile is_space (rev (dropWhile is_space s)))"

text \<open>
  \<^verbatim>\<open>JSON.parse\<close>, after the grammar of ECMA-404 as ECMAScript reads it: \<open>None\<close> is the
  \<^verbatim>\<open>SyntaxError\<close>. The text is cut into tokens first. Outside a string, a maximal run of
  letters, digits, signs and dots is one word, which must be \<^verbatim>\<open>true\<close>, \<^verbatim>\<open>false\<close>,
  \<^verbatim>\<open>null\<close> or a number; inside a string, the escapes are decoded and a control character
  is an error.
\<close>

datatype token = LBrace | RBrace | LBracket | RBracket | Colon | Comma | TString jstring | TWord jstring

datatype lexmode = Idle | InWord jstring | InString jstring | InEscape jstring | InUnicode jstring "nat list"

definition is_json_space :: "nat \<Rightarrow> bool" where
  "is_json_space c = (c = 32 \<or> c = 9 \<or> c = 10 \<or> c = 13)"

definition digit :: "nat \<Rightarrow> bool" where
  "digit c = (48 \<le> c \<and> c \<le> 57)"

definition word_char :: "nat \<Rightarrow> bool" where
  "word_char c = (digit c \<or> 97 \<le> c \<and> c \<le> 122 \<or> 65 \<le> c \<and> c \<le> 90 \<or> c = 43 \<or> c = 45 \<or> c = 46)"

definition punctuation :: "nat \<Rightarrow> token option" where
  "punctuation c =
     (if c = 123 then Some LBrace else if c = 125 then Some RBrace
      else if c = 91 then Some LBracket else if c = 93 then Some RBracket
      else if c = 58 then Some Colon else if c = 44 then Some Comma else None)"

definition hex_digit :: "nat \<Rightarrow> nat option" where
  "hex_digit c =
     (if 48 \<le> c \<and> c \<le> 57 then Some (c - 48)
      else if 65 \<le> c \<and> c \<le> 70 then Some (c - 55)
      else if 97 \<le> c \<and> c \<le> 102 then Some (c - 87)
      else None)"

definition escape :: "nat \<Rightarrow> nat option" where
  "escape c =
     (if c = 34 \<or> c = 92 \<or> c = 47 then Some c
      else if c = 98 then Some 8 else if c = 102 then Some 12
      else if c = 110 then Some 10 else if c = 114 then Some 13
      else if c = 116 then Some 9 else None)"

definition start :: "nat \<Rightarrow> (token list \<times> lexmode) option" where
  "start c =
     (if is_json_space c then Some ([], Idle)
      else if c = 34 then Some ([], InString [])
      else if word_char c then Some ([], InWord [c])
      else map_option (\<lambda>t. ([t], Idle)) (punctuation c))"

fun lex :: "lexmode \<Rightarrow> jstring \<Rightarrow> token list option" where
  "lex Idle [] = Some []"
| "lex (InWord w) [] = Some [TWord w]"
| "lex (InString s) [] = None"
| "lex (InEscape s) [] = None"
| "lex (InUnicode s h) [] = None"
| "lex Idle (c # cs) =
     (case start c of None \<Rightarrow> None | Some (ts, m) \<Rightarrow> map_option ((@) ts) (lex m cs))"
| "lex (InWord w) (c # cs) =
     (if word_char c then lex (InWord (w @ [c])) cs
      else (case start c of
              None \<Rightarrow> None
            | Some (ts, m) \<Rightarrow> map_option ((@) (TWord w # ts)) (lex m cs)))"
| "lex (InString s) (c # cs) =
     (if c = 34 then map_option ((#) (TString s)) (lex Idle cs)
      else if c = 92 then lex (InEscape s) cs
      else if c < 32 then None
      else lex (InString (s @ [c])) cs)"
| "lex (InEscape s) (c # cs) =
     (if c = 117 then lex (InUnicode s []) cs
      else (case escape c of None \<Rightarrow> None | Some e \<Rightarrow> lex (InString (s @ [e])) cs))"
| "lex (InUnicode s h) (c # cs) =
     (case hex_digit c of
        None \<Rightarrow> None
      | Some d \<Rightarrow>
          if length h = 3 then lex (InString (s @ [foldl (\<lambda>a x. 16 * a + x) 0 (h @ [d])])) cs
          else lex (InUnicode s (h @ [d])) cs)"

text \<open>The grammar of a number: \<^verbatim>\<open>-?(0|[1-9][0-9]*)(\.[0-9]+)?([eE][+-]?[0-9]+)?\<close>.\<close>

definition exponent_part :: "jstring \<Rightarrow> bool" where
  "exponent_part r =
     (case r of
        [] \<Rightarrow> True
      | c # r1 \<Rightarrow>
          (c = 101 \<or> c = 69) \<and>
          (let r2 = (case r1 of [] \<Rightarrow> [] | s # t \<Rightarrow> if s = 43 \<or> s = 45 then t else r1)
           in r2 \<noteq> [] \<and> list_all digit r2))"

definition fraction_part :: "jstring \<Rightarrow> bool" where
  "fraction_part r =
     (case r of
        [] \<Rightarrow> True
      | c # r1 \<Rightarrow>
          if c = 46 then takeWhile digit r1 \<noteq> [] \<and> exponent_part (dropWhile digit r1)
          else exponent_part r)"

definition is_number :: "jstring \<Rightarrow> bool" where
  "is_number w =
     (case (case w of [] \<Rightarrow> [] | c # t \<Rightarrow> if c = 45 then t else w) of
        [] \<Rightarrow> False
      | c # r1 \<Rightarrow>
          if c = 48 then fraction_part r1
          else if 49 \<le> c \<and> c \<le> 57 then fraction_part (dropWhile digit r1)
          else False)"

definition word_value :: "jstring \<Rightarrow> json option" where
  "word_value w =
     (if w = js ''true'' then Some (JBool True)
      else if w = js ''false'' then Some (JBool False)
      else if w = js ''null'' then Some JNull
      else if is_number w then Some (JNum w)
      else None)"

text \<open>
  The tokens are then read with a stack of the arrays and objects that are open, and what may
  come next (\<open>expect\<close>); \<open>deliver\<close> hands a finished value to the innermost open
  container, or ends the text.
\<close>

datatype frame =
    InArray "json list"
  | InObject "(jstring \<times> json) list"
  | InMember "(jstring \<times> json) list" jstring

datatype expect = AValue | AValueOrEnd | AKeyOrEnd | AKey | AColon | ACommaOrEnd | Done json

fun deliver :: "json \<Rightarrow> frame list \<Rightarrow> (expect \<times> frame list) option" where
  "deliver v [] = Some (Done v, [])"
| "deliver v (InArray xs # st) = Some (ACommaOrEnd, InArray (xs @ [v]) # st)"
| "deliver v (InMember kvs k # st) = Some (ACommaOrEnd, InObject (kvs @ [(k, v)]) # st)"
| "deliver v (InObject kvs # st) = None"

fun value_token :: "token \<Rightarrow> frame list \<Rightarrow> (expect \<times> frame list) option" where
  "value_token (TString s) st = deliver (JStr s) st"
| "value_token (TWord w) st = (case word_value w of None \<Rightarrow> None | Some v \<Rightarrow> deliver v st)"
| "value_token LBrace st = Some (AKeyOrEnd, InObject [] # st)"
| "value_token LBracket st = Some (AValueOrEnd, InArray [] # st)"
| "value_token t st = None"

fun close_token :: "token \<Rightarrow> frame list \<Rightarrow> (expect \<times> frame list) option" where
  "close_token RBracket (InArray xs # st) = deliver (JArr xs) st"
| "close_token RBrace (InObject kvs # st) = deliver (JObj kvs) st"
| "close_token t st = None"

fun key_token :: "token \<Rightarrow> frame list \<Rightarrow> (expect \<times> frame list) option" where
  "key_token (TString k) (InObject kvs # st) = Some (AColon, InMember kvs k # st)"
| "key_token t st = None"

fun step :: "expect \<Rightarrow> frame list \<Rightarrow> token \<Rightarrow> (expect \<times> frame list) option" where
  "step AValue st t = value_token t st"
| "step AValueOrEnd st t = (if t = RBracket then close_token t st else value_token t st)"
| "step AKeyOrEnd st t = (if t = RBrace then close_token t st else key_token t st)"
| "step AKey st t = key_token t st"
| "step AColon st t = (if t = Colon then Some (AValue, st) else None)"
| "step ACommaOrEnd st t =
     (if t = Comma then
        (case st of
           InArray xs # st' \<Rightarrow> Some (AValue, st)
         | InObject kvs # st' \<Rightarrow> Some (AKey, st)
         | _ \<Rightarrow> None)
      else close_token t st)"
| "step (Done v) st t = None"

fun parse_tokens :: "expect \<Rightarrow> frame list \<Rightarrow> token list \<Rightarrow> json option" where
  "parse_tokens e st [] = (case e of Done v \<Rightarrow> Some v | _ \<Rightarrow> None)"
| "parse_tokens e st (t # ts) =
     (case step e st t of None \<Rightarrow> None | Some (e', st') \<Rightarrow> parse_tokens e' st' ts)"

definition JSON_parse :: "jstring \<Rightarrow> json option" where
  "JSON_parse text = (case lex Idle text of None \<Rightarrow> None | Some ts \<Rightarrow> parse_tokens AValue [] ts)"

section \<open>The relay proxy: supabase/functions/chat/index.ts\<close>

text \<open>
  A JavaScript number as far as the proxy handles one: the delay it sleeps. Every finite
  double is a rational.
\<close>

datatype jsnum = NaN | Fin rat | PosInf | NegInf

text \<open>\<^verbatim>\<open>x || y\<close> on numbers takes \<open>y\<close> when \<open>x\<close> is \<open>0\<close> or \<open>NaN\<close>.\<close>

definition truthy_num :: "jsnum \<Rightarrow> bool" where
  "truthy_num n = (n \<noteq> NaN \<and> n \<noteq> Fin 0)"

text \<open>
  What the upstream gateway answers to one \<^verbatim>\<open>fetch\<close>. \<open>u_retry_after\<close> is the
  \<^verbatim>\<open>retry-after\<close> header as \<^verbatim>\<open>Number(...)\<close> reads it: \<open>None\<close> when the header is
  absent, \<open>Some NaN\<close> when it is present and not numeric. \<open>u_body\<close> is the body stream,
  which the proxy hands on unread; \<open>u_text\<close> is the outcome of
  \<^verbatim>\<open>await response.text()\<close>: the text of the body, or (\<open>Inl\<close>) the message of the
  error when reading the body fails.
\<close>

record 'b upstream_response =
  u_status :: nat
  u_retry_after :: "jsnum option"
  u_body :: 'b
  u_text :: "jstring + jstring"

text \<open>\<^verbatim>\<open>await fetch(...)\<close> resolves with a response or rejects with an error (its message).\<close>

datatype 'b upstream = Responds "'b upstream_response" | FetchRejects jstring

text \<open>\<^verbatim>\<open>response.ok\<close>: the status is in the range 200 to 299.\<close>

definition u_ok :: "'b upstream_response \<Rightarrow> bool" where
  "u_ok r = (200 \<le> u_status r \<and> u_status r \<le> 299)"

text \<open>
  The inbound request. \<open>req_json\<close> is the outcome of
  \<^verbatim>\<open>const { messages } = await req.json()\<close>: \<open>Inl\<close> the message of the error when the
  body is not JSON (or the destructuring throws), otherwise the value bound to
  \<open>messages\<close>, which either can be spread into the upstream request (\<open>Iterable\<close>) or
  makes the spread throw a TypeError (\<open>NotIterable\<close>, with the error's message).
\<close>

datatype 'm messages = Iterable 'm | NotIterable jstring

record 'm request =
  req_method :: jstring
  req_json :: "jstring + 'm messages"

text \<open>The response the proxy returns. \<open>Json v\<close> is the body \<^verbatim>\<open>JSON.stringify(v)\<close>.\<close>

datatype 'b body = Empty | Stream 'b | Json json

record 'b response =
  status :: nat
  headers :: "(jstring \<times> jstring) list"
  body :: "'b body"

text \<open>
  What the handler does besides answering, in order: a request to the upstream (lines 21 to
  39, with the model and the caller's messages, which follow the fixed system message), a
  sleep (line 50), and the two \<^verbatim>\<open>console.error\<close> calls (lines 69 and 82).
\<close>

datatype 'm effect =
    Fetch jstring 'm
  | Sleep jsnum
  | LogGatewayError nat jstring
  | LogChatError jstring

definition corsHeaders :: "(jstring \<times> jstring) list" where
  "corsHeaders =
     [(js ''Access-Control-Allow-Origin'', js ''*''),
      (js ''Access-Control-Allow-Headers'', js ''authorization, x-client-info, apikey, content-type'')]"

definition flash :: jstring where
  "flash = js ''google/gemini-2.5-flash''"

definition flash_lite :: jstring where
  "flash_lite = js ''google/gemini-2.5-flash-lite''"

definition maxRetries :: nat where
  "maxRetries = 3"

text \<open>\<^verbatim>\<open>{ error: msg }\<close> with status \<open>st\<close> and the JSON headers.\<close>

definition error_response :: "nat \<Rightarrow> jstring \<Rightarrow> 'b response" where
  "error_response st msg =
     \<lparr>status = st,
      headers = corsHeaders @ [(js ''Content-Type'', js ''application/json'')],
      body = Json (JObj [(js ''error'', JStr msg)])\<rparr>"

text \<open>The terminal error responses of lines 62, 70 and 77.\<close>

definition payment_required :: "'b response" where
  "payment_required =
     error_response 402 (js ''Payment required. Please add credits to your Lovable AI workspace.'')"

definition gateway_error :: "'b response" where
  "gateway_error = error_response 500 (js ''AI gateway error'')"

definition rate_limits_exceeded :: "'b response" where
  "rate_limits_exceeded = error_response 429 (js ''Rate limits exceeded, please try again shortly.'')"

text \<open>Lines 41 to 45: the pass-through. A \<^verbatim>\<open>Response\<close> built without a status has status 200.\<close>

definition success_response :: "jstring \<Rightarrow> 'b \<Rightarrow> 'b response" where
  "success_response model b =
     \<lparr>status = 200,
      headers = corsHeaders @ [(js ''Content-Type'', js ''text/event-stream''), (js ''x-model-used'', model)],
      body = Stream b\<rparr>"

text \<open>
  Line 49: \<^verbatim>\<open>Number(response.headers.get("retry-after")) || (attempt + 1) * 800\<close>.
  \<^verbatim>\<open>Number(null)\<close> is \<open>0\<close>.
\<close>

definition retryAfter :: "jsnum option \<Rightarrow> nat \<Rightarrow> jsnum" where
  "retryAfter hdr attempt =
     (let n = (case hdr of None \<Rightarrow> Fin 0 | Some v \<Rightarrow> v)
      in if truthy_num n then n else Fin (of_nat ((attempt + 1) * 800)))"

text \<open>
  Lines 20 to 80: the loop, from the state it has at the head of a turn. \<open>up attempt\<close> is
  the answer to the \<^verbatim>\<open>fetch\<close> of that turn (every turn makes one, and \<open>attempt\<close> counts
  the turns). The result is \<open>Inr\<close> the response returned, or \<open>Inl\<close> the message of an
  exception that leaves the loop for the \<^verbatim>\<open>catch\<close> of line 81, with the effects so far.
\<close>

function retry_loop ::
  "(nat \<Rightarrow> 'b upstream) \<Rightarrow> 'm messages \<Rightarrow> nat \<Rightarrow> jstring \<Rightarrow> bool \<Rightarrow> 'm effect list
     \<Rightarrow> (jstring + 'b response) \<times> 'm effect list" where
  "retry_loop up messages attempt model triedLite trace =
     (if attempt < maxRetries then
        (case messages of
           NotIterable e \<Rightarrow> (Inl e, trace)
         | Iterable ms \<Rightarrow>
             (case up attempt of
                FetchRejects e \<Rightarrow> (Inl e, trace @ [Fetch model ms])
              | Responds response \<Rightarrow>
                  if u_ok response then
                    (Inr (success_response model (u_body response)), trace @ [Fetch model ms])
                  else if u_status response = 429 then
                    retry_loop up messages (attempt + 1) model triedLite
                      (trace @ [Fetch model ms, Sleep (retryAfter (u_retry_after response) attempt)])
                  else if u_status response = 402 \<and> \<not> triedLite then
                    retry_loop up messages (attempt + 1) flash_lite True (trace @ [Fetch model ms])
                  else if u_status response = 402 then
                    (Inr payment_required, trace @ [Fetch model ms])
                  else
                    (case u_text response of
                       Inl e \<Rightarrow> (Inl e, trace @ [Fetch model ms])
                     | Inr t \<Rightarrow>
                         (Inr gateway_error,
                          trace @ [Fetch model ms, LogGatewayError (u_status response) t]))))
      else (Inr rate_limits_exceeded, trace))"
  by pat_completeness auto
termination
  by (relation "measure (\<lambda>(up, messages, attempt, model, triedLite, trace). maxRetries - attempt)") auto

text \<open>
  Lines 8 to 88. \<open>key\<close> is \<^verbatim>\<open>Deno.env.get("LOVABLE_API_KEY")\<close>; an empty string is as
  falsy as an absent variable. Every exception of the handler is an \<^verbatim>\<open>Error\<close>, so the
  \<^verbatim>\<open>catch\<close> answers with its message.
\<close>

definition configured :: "jstring option \<Rightarrow> bool" where
  "configured key = (key \<noteq> None \<and> key \<noteq> Some [])"

definition serve_handler ::
  "jstring option \<Rightarrow> (nat \<Rightarrow> 'b upstream) \<Rightarrow> 'm request \<Rightarrow> 'b response \<times> 'm effect list" where
  "serve_handler key up req =
     (if req_method req = js ''OPTIONS'' then (\<lparr>status = 200, headers = corsHeaders, body = Empty\<rparr>, [])
      else
        (case
           (case req_json req of
              Inl e \<Rightarrow> (Inl e, [])
            | Inr messages \<Rightarrow>
                if \<not> configured key then (Inl (js ''LOVABLE_API_KEY is not configured''), [])
                else retry_loop up messages 0 flash False [])
         of
           (Inl e, trace) \<Rightarrow> (error_response 500 e, trace @ [LogChatError e])
         | (Inr response, trace) \<Rightarrow> (response, trace)))"

text \<open>Observers of a run: the models requested upstream and the delays slept, in order.\<close>

fun requested :: "'m effect list \<Rightarrow> jstring list" where
  "requested [] = []"
| "requested (Fetch model ms # es) = model # requested es"
| "requested (e # es) = requested es"

fun slept :: "'m effect list \<Rightarrow> jsnum list" where
  "slept [] = []"
| "slept (Sleep d # es) = d # slept es"
| "slept (e # es) = slept es"

text \<open>
  Concrete runs: a \<^verbatim>\<open>POST\<close> request, an upstream that gives the listed answers in order
  (and a network failure after them), and an upstream answer with a status and a
  \<^verbatim>\<open>retry-after\<close> header.
\<close>

definition post :: "jstring + 'm messages \<Rightarrow> 'm request" where
  "post j = \<lparr>req_method = js ''POST'', req_json = j\<rparr>"

definition answers :: "'b upstream list \<Rightarrow> nat \<Rightarrow> 'b upstream" where
  "answers xs k = (if k < length xs then xs ! k else FetchRejects (js ''network error''))"

definition answer :: "nat \<Rightarrow> jsnum option \<Rightarrow> jstring upstream" where
  "answer st hdr =
     Responds \<lparr>u_status = st, u_retry_after = hdr, u_body = js ''data: [DONE]'',
       u_text = Inr (js ''upstream says no'')\<rparr>"

text \<open>
  An upstream answer with a status and an outcome of reading its text, and a conversation of
  one message.
\<close>

definition failure :: "nat \<Rightarrow> jstring + jstring \<Rightarrow> jstring upstream" where
  "failure st t = Responds \<lparr>u_status = st, u_retry_after = None, u_body = [], u_text = t\<rparr>"

definition hi :: "jstring list messages" where
  "hi = Iterable [js ''hi'']"

section \<open>The conversation client: src/components/ChatInterface.tsx\<close>

subsection \<open>Reading a delta out of a data line\<close>

text \<open>
  \<open>member k v\<close> is the property read \<^verbatim>\<open>v[k]\<close> on a value that is neither
  \<^verbatim>\<open>null\<close> nor \<^verbatim>\<open>undefined\<close>, for the names the client reads (\<^verbatim>\<open>choices\<close>,
  \<^verbatim>\<open>0\<close>, \<^verbatim>\<open>delta\<close>, \<^verbatim>\<open>content\<close>: no prototype defines them), with \<open>None\<close> for
  \<^verbatim>\<open>undefined\<close>. Of an object's members with the same name the last one counts.
  \<open>optional v k\<close> is \<^verbatim>\<open>v?.[k]\<close>.
\<close>

definition member :: "jstring \<Rightarrow> json \<Rightarrow> json option" where
  "member k v =
     (case v of
        JObj kvs \<Rightarrow> map_of (rev kvs) k
      | JArr xs \<Rightarrow> if k = js ''0'' then (case xs of [] \<Rightarrow> None | x # _ \<Rightarrow> Some x) else None
      | JStr s \<Rightarrow> if k = js ''0'' then (case s of [] \<Rightarrow> None | c # _ \<Rightarrow> Some (JStr [c])) else None
      | _ \<Rightarrow> None)"

definition optional :: "json option \<Rightarrow> jstring \<Rightarrow> json option" where
  "optional v k = (case v of None \<Rightarrow> None | Some x \<Rightarrow> if x = JNull then None else member k x)"

text \<open>
  \<^verbatim>\<open>if (content)\<close> and \<^verbatim>\<open>assistantContent += content\<close> for any JSON value. The wire
  format has a string there; for the rest JavaScript coerces. \<open>numberToString\<close> is the
  runtime's conversion of a number (given by its lexeme) to a string; only \<open>0\<close> and \<open>-0\<close>,
  which it prints as \<^verbatim>\<open>0\<close>, are falsy. An array is joined with commas, \<^verbatim>\<open>null\<close>
  elements as empty strings; an object prints as \<^verbatim>\<open>[object Object]\<close>, and one with a
  member \<^verbatim>\<open>toString\<close> (which is not callable) makes the conversion throw a TypeError
  (\<open>None\<close>).
\<close>

definition truthy :: "(jstring \<Rightarrow> jstring) \<Rightarrow> json \<Rightarrow> bool" where
  "truthy numberToString v =
     (case v of
        JNull \<Rightarrow> False
      | JBool b \<Rightarrow> b
      | JNum n \<Rightarrow> numberToString n \<noteq> js ''0''
      | JStr s \<Rightarrow> s \<noteq> []
      | JArr xs \<Rightarrow> True
      | JObj kvs \<Rightarrow> True)"

fun join :: "jstring option list \<Rightarrow> jstring option" where
  "join [] = Some []"
| "join [x] = x"
| "join (x # y # ys) =
     (case x of
        None \<Rightarrow> None
      | Some s \<Rightarrow> (case join (y # ys) of None \<Rightarrow> None | Some r \<Rightarrow> Some (s @ js '','' @ r)))"

fun toString :: "(jstring \<Rightarrow> jstring) \<Rightarrow> json \<Rightarrow> jstring option" where
  "toString numberToString JNull = Some (js ''null'')"
| "toString numberToString (JBool b) = Some (if b then js ''true'' else js ''false'')"
| "toString numberToString (JNum n) = Some (numberToString n)"
| "toString numberToString (JStr s) = Some s"
| "toString numberToString (JArr xs) =
     join (map (\<lambda>x. if x = JNull then Some [] else toString numberToString x) xs)"
| "toString numberToString (JObj kvs) =
     (if js ''toString'' \<in> set (map fst kvs) then None else Some (js ''[object Object]''))"

text \<open>
  Lines 127 to 143, the \<^verbatim>\<open>try\<close> block up to the point where the transcript is updated:
  it throws (a \<^verbatim>\<open>SyntaxError\<close> of the parser, or a \<^verbatim>\<open>TypeError\<close> when the payload is
  \<^verbatim>\<open>null\<close> or the content cannot be converted), or it finds no content, or it has the
  text to append.
\<close>

datatype tried = Threw | NoContent | Content jstring

definition try_content :: "(jstring \<Rightarrow> jstring) \<Rightarrow> jstring \<Rightarrow> tried" where
  "try_content numberToString jsonStr =
     (case JSON_parse jsonStr of
        None \<Rightarrow> Threw
      | Some parsed \<Rightarrow>
          if parsed = JNull then Threw
          else
            (case optional (optional (optional (member (js ''choices'') parsed) (js ''0''))
                    (js ''delta'')) (js ''content'') of
               None \<Rightarrow> NoContent
             | Some content \<Rightarrow>
                 if truthy numberToString content then
                   (case toString numberToString content of None \<Rightarrow> Threw | Some s \<Rightarrow> Content s)
                 else NoContent))"

subsection \<open>The transcript and the decoder\<close>

datatype role = System | User | Assistant

record message =
  role :: role
  content :: jstring

text \<open>
  Lines 132 to 138 and 272 to 278, the function handed to \<^verbatim>\<open>setMessages\<close> and to
  \<^verbatim>\<open>setAssistantMessages\<close>: the same text in both drivers. The model applies it at
  once, with the accumulator of that moment. (React may run it later, when the variable
  \<open>assistantContent\<close> it reads has grown; the transcript after the last update of a
  stream is the same.)
\<close>

definition fold_delta :: "jstring \<Rightarrow> message list \<Rightarrow> message list" where
  "fold_delta assistantContent prev =
     (if prev \<noteq> [] \<and> role (last prev) = Assistant then
        map (\<lambda>(i, m). if i = length prev - 1 then m\<lparr>content := assistantContent\<rparr> else m)
          (enumerate 0 prev)
      else prev @ [\<lparr>role = Assistant, content = assistantContent\<rparr>])"

text \<open>
  The local variables of the decoding loop, with the transcript the driver updates
  (\<open>messages\<close> in \<^verbatim>\<open>streamChat\<close>, \<open>assistantMessages\<close> in
  \<^verbatim>\<open>streamAssistantChat\<close>). The two drivers have the same loop, lines 110 to 145 and
  250 to 285; the model has it once.
\<close>

record decoder =
  textBuffer :: jstring
  streamDone :: bool
  assistantContent :: jstring
  transcript :: "message list"

text \<open>Lines 116 to 144: the inner loop, which takes complete lines off the buffer.\<close>

function process_lines :: "(jstring \<Rightarrow> jstring) \<Rightarrow> decoder \<Rightarrow> decoder" where
  "process_lines numberToString d =
     (case indexOf (textBuffer d) 10 of
        None \<Rightarrow> d
      | Some newlineIndex \<Rightarrow>
          (let line0 = take newlineIndex (textBuffer d);
               d1 = d\<lparr>textBuffer := drop (newlineIndex + 1) (textBuffer d)\<rparr>;
               line = (if endsWith line0 [13] then butlast line0 else line0)
           in if startsWith line (js '':'') \<or> trim line = [] then process_lines numberToString d1
              else if \<not> startsWith line (js ''data: '') then process_lines numberToString d1
              else
                (let jsonStr = trim (drop 6 line)
                 in if jsonStr = js ''[DONE]'' then d1\<lparr>streamDone := True\<rparr>
                    else
                      (case try_content numberToString jsonStr of
                         Threw \<Rightarrow> d1\<lparr>textBuffer := line @ [10] @ textBuffer d1\<rparr>
                       | NoContent \<Rightarrow> process_lines numberToString d1
                       | Content delta \<Rightarrow>
                           process_lines numberToString
                             (d1\<lparr>assistantContent := assistantContent d1 @ delta,
                                 transcript :=
                                   fold_delta (assistantContent d1 @ delta) (transcript d1)\<rparr>)))))"
  by pat_completeness auto
termination
proof -
  have less: "length (drop (i + 1) xs) < length xs" if "indexOf xs c = Some i"
    for xs :: jstring and c i
    using that by (induction xs arbitrary: i) (auto split: if_splits)
  show ?thesis
    by (relation "measure (\<lambda>(numberToString, d). length (textBuffer d))") (auto dest: less)
qed

text \<open>
  Lines 110 to 145: the outer loop. The body of the response is the list of what
  \<^verbatim>\<open>reader.read()\<close> gives in turn: a chunk (its text as the streaming decoder returns
  it) or a rejection; at the end of the list the read reports \<^verbatim>\<open>done\<close>. The result is
  the state at the end of the loop, or (\<open>Thrown\<close>) the state at the read that threw.
\<close>

datatype read = Chunk jstring | ReadRejects

datatype 'a outcome = Returned 'a | Thrown 'a

definition feed :: "(jstring \<Rightarrow> jstring) \<Rightarrow> jstring \<Rightarrow> decoder \<Rightarrow> decoder" where
  "feed numberToString chunk d = process_lines numberToString (d\<lparr>textBuffer := textBuffer d @ chunk\<rparr>)"

fun read_loop :: "(jstring \<Rightarrow> jstring) \<Rightarrow> read list \<Rightarrow> decoder \<Rightarrow> decoder outcome" where
  "read_loop numberToString [] d = Returned d"
| "read_loop numberToString (r # rs) d =
     (if streamDone d then Returned d
      else (case r of
              ReadRejects \<Rightarrow> Thrown d
            | Chunk chunk \<Rightarrow> read_loop numberToString rs (feed numberToString chunk d)))"

text \<open>Lines 106 to 108: the decoder's variables at the start, for a transcript.\<close>

definition decoder_start :: "message list \<Rightarrow> decoder" where
  "decoder_start t = \<lparr>textBuffer = [], streamDone = False, assistantContent = [], transcript = t\<rparr>"

subsection \<open>The two drivers\<close>

text \<open>
  What \<^verbatim>\<open>fetch(CHAT_URL, ...)\<close> gives: a response, of which the client reads the status,
  the body and the \<^verbatim>\<open>x-model-used\<close> header, or a rejection.
\<close>

record relay_response =
  r_status :: nat
  r_body :: "read list option"
  r_model_used :: "jstring option"

datatype fetched = Resolves relay_response | Rejects

definition r_ok :: "relay_response \<Rightarrow> bool" where
  "r_ok r = (200 \<le> r_status r \<and> r_status r \<le> 299)"

text \<open>
  The state of the component that the drivers touch, and what they do besides, in order:
  the requests sent (with the messages of the body), the toasts (title, description,
  variant), the sleeps (milliseconds) and the errors logged.
\<close>

datatype ui_effect =
    Post "message list"
  | Toast jstring jstring "jstring option"
  | Wait nat
  | ConsoleError

record ui =
  messages :: "message list"
  isLoading :: bool
  assistantMessages :: "message list"
  isAssistantLoading :: bool
  effects :: "ui_effect list"

definition emit :: "ui_effect list \<Rightarrow> ui \<Rightarrow> ui" where
  "emit es u = u\<lparr>effects := effects u @ es\<rparr>"

definition destructive :: "jstring option" where
  "destructive = Some (js ''destructive'')"

text \<open>The decimal digits of a number, for the template string of line 73.\<close>

fun show_nat :: "nat \<Rightarrow> jstring" where
  "show_nat n = (if n < 10 then [48 + n] else show_nat (n div 10) @ [48 + n mod 10])"

definition chat_maxRetries :: nat where
  "chat_maxRetries = 3"

text \<open>
  One turn of the loop of \<^verbatim>\<open>streamChat\<close>, lines 58 to 159, ends the call
  (\<open>Return\<close>) or goes round again (\<open>Retry\<close>); \<open>attempt\<close> is raised by one on each
  way round, in line 70 or in line 151. \<open>chat_catch\<close> is the \<^verbatim>\<open>catch\<close> block.
\<close>

datatype 'a turn = Return 'a | Retry 'a

definition chat_catch :: "nat \<Rightarrow> ui \<Rightarrow> ui turn" where
  "chat_catch attempt u =
     (if attempt + 1 \<ge> chat_maxRetries then
        Return ((emit [ConsoleError,
                       Toast (js ''Error'') (js ''Failed to send message. Please try again.'') destructive] u)
                  \<lparr>isLoading := False\<rparr>)
      else Retry (emit [ConsoleError, Wait (500 * (attempt + 1))] u))"

definition rate_limited_description :: "nat \<Rightarrow> jstring" where
  "rate_limited_description delay = js ''Retrying in '' @ show_nat ((delay + 500) div 1000) @ js ''s...''"

text \<open>Lines 99 to 102: the notice when the header names the cheaper model.\<close>

definition economy_mode :: "relay_response \<Rightarrow> ui \<Rightarrow> ui" where
  "economy_mode resp u =
     (case r_model_used resp of
        None \<Rightarrow> u
      | Some modelUsed \<Rightarrow>
          if modelUsed \<noteq> [] \<and> includes_text modelUsed (js ''flash-lite'') then
            emit [Toast (js ''Economy mode'') (js ''Using Gemini Flash Lite to avoid credit limits.'') None] u
          else u)"

definition streamChat_turn ::
  "(jstring \<Rightarrow> jstring) \<Rightarrow> (nat \<Rightarrow> fetched) \<Rightarrow> message list \<Rightarrow> nat \<Rightarrow> ui \<Rightarrow> ui turn" where
  "streamChat_turn numberToString net newMessages attempt u0 =
     (let u = emit [Post newMessages] u0
      in case net attempt of
           Rejects \<Rightarrow> chat_catch attempt u
         | Resolves resp \<Rightarrow>
             if r_status resp = 429 then
               (if attempt + 1 < chat_maxRetries then
                  Retry (emit [Toast (js ''Rate limited'') (rate_limited_description (700 * (attempt + 1))) None,
                               Wait (700 * (attempt + 1))] u)
                else
                  Return ((emit [Toast (js ''Rate limit exceeded'') (js ''Please try again a bit later.'')
                                   destructive] u)
                            \<lparr>isLoading := False\<rparr>))
             else if r_status resp = 402 then
               Return ((emit [Toast (js ''Out of credits'')
                                (js ''Please add credits to your Lovable AI workspace.'') destructive] u)
                         \<lparr>isLoading := False\<rparr>)
             else
               (case (if r_ok resp then r_body resp else None) of
                  None \<Rightarrow> chat_catch attempt u
                | Some reads \<Rightarrow>
                    (let u1 = economy_mode resp u
                     in case read_loop numberToString reads (decoder_start (messages u1)) of
                          Returned d \<Rightarrow> Return (u1\<lparr>messages := transcript d, isLoading := False\<rparr>)
                        | Thrown d \<Rightarrow> chat_catch attempt (u1\<lparr>messages := transcript d\<rparr>))))"

text \<open>
  Lines 58 to 159. \<open>net attempt\<close> is what the \<^verbatim>\<open>fetch\<close> of the turn gives: each turn
  makes one call, the first with \<open>attempt = 0\<close>.
\<close>

function streamChat_loop ::
  "(jstring \<Rightarrow> jstring) \<Rightarrow> (nat \<Rightarrow> fetched) \<Rightarrow> message list \<Rightarrow> nat \<Rightarrow> ui \<Rightarrow> ui" where
  "streamChat_loop numberToString net newMessages attempt u =
     (if attempt < chat_maxRetries then
        (case streamChat_turn numberToString net newMessages attempt u of
           Return u' \<Rightarrow> u'
         | Retry u' \<Rightarrow> streamChat_loop numberToString net newMessages (attempt + 1) u')
      else u)"
  by pat_completeness auto
termination
  by (relation "measure (\<lambda>(numberToString, net, newMessages, attempt, u). chat_maxRetries - attempt)") auto

text \<open>Lines 49 to 160.\<close>

definition streamChat :: "(jstring \<Rightarrow> jstring) \<Rightarrow> (nat \<Rightarrow> fetched) \<Rightarrow> jstring \<Rightarrow> ui \<Rightarrow> ui" where
  "streamChat numberToString net userMessage u =
     (let newMessages = messages u @ [\<lparr>role = User, content = userMessage\<rparr>]
      in streamChat_loop numberToString net newMessages 0 (u\<lparr>messages := newMessages, isLoading := True\<rparr>))"

text \<open>
  Lines 209 to 293. \<open>activeUrl\<close> is \<^verbatim>\<open>activeTab?.url\<close>, and \<open>fetched\<close> what the one
  \<^verbatim>\<open>fetch\<close> of the function gives.
\<close>

definition systemPrompt :: "jstring option \<Rightarrow> jstring" where
  "systemPrompt activeUrl =
     js ''You are a helpful AI assistant that helps users navigate and understand websites. The user is currently viewing: ''
     @ (case activeUrl of None \<Rightarrow> js ''a website'' | Some url \<Rightarrow> if url = [] then js ''a website'' else url)
     @ js ''. Help them find information, explain features, and guide them through the site.''"

definition assistant_catch :: "ui \<Rightarrow> ui" where
  "assistant_catch u =
     (emit [ConsoleError, Toast (js ''Error'') (js ''Failed to send message.'') destructive] u)
       \<lparr>isAssistantLoading := False\<rparr>"

definition streamAssistantChat ::
  "(jstring \<Rightarrow> jstring) \<Rightarrow> fetched \<Rightarrow> jstring option \<Rightarrow> jstring \<Rightarrow> ui \<Rightarrow> ui" where
  "streamAssistantChat numberToString fetched activeUrl userMessage u0 =
     (let newMessages =
            [\<lparr>role = System, content = systemPrompt activeUrl\<rparr>] @ assistantMessages u0
            @ [\<lparr>role = User, content = userMessage\<rparr>];
          u = emit [Post newMessages]
                (u0\<lparr>assistantMessages := assistantMessages u0 @ [\<lparr>role = User, content = userMessage\<rparr>],
                    isAssistantLoading := True\<rparr>)
      in case fetched of
           Rejects \<Rightarrow> assistant_catch u
         | Resolves resp \<Rightarrow>
             if r_status resp = 429 then
               (emit [Toast (js ''Rate limited'') (js ''Please try again later.'') destructive] u)
                 \<lparr>isAssistantLoading := False\<rparr>
             else if r_status resp = 402 then
               (emit [Toast (js ''Out of credits'') (js ''Please add credits.'') destructive] u)
                 \<lparr>isAssistantLoading := False\<rparr>
             else
               (case (if r_ok resp then r_body resp else None) of
                  None \<Rightarrow> assistant_catch u
                | Some reads \<Rightarrow>
                    (case read_loop numberToString reads (decoder_start (assistantMessages u)) of
                       Returned d \<Rightarrow> u\<lparr>assistantMessages := transcript d, isAssistantLoading := False\<rparr>
                     | Thrown d \<Rightarrow> assistant_catch (u\<lparr>assistantMessages := transcript d\<rparr>))))"

subsection \<open>Observers and concrete inputs\<close>

text \<open>The entries of a transcript, the requests and the sleeps among the effects.\<close>

definition user :: "jstring \<Rightarrow> message" where
  "user text = \<lparr>role = User, content = text\<rparr>"

definition assistant :: "jstring \<Rightarrow> message" where
  "assistant text = \<lparr>role = Assistant, content = text\<rparr>"

fun posts :: "ui_effect list \<Rightarrow> nat" where
  "posts [] = 0"
| "posts (Post ms # es) = Suc (posts es)"
| "posts (e # es) = posts es"

fun waits :: "ui_effect list \<Rightarrow> nat list" where
  "waits [] = []"
| "waits (Wait ms # es) = ms # waits es"
| "waits (e # es) = waits es"

text \<open>
  The invariant of one generation, for a decoder started on the transcript \<open>t\<close>: the
  transcript is still \<open>t\<close>, or it is \<open>t\<close> with the reply so far folded in once. And its
  consequence for a driver that has put the messages \<open>sent\<close> into the transcript: the
  transcript is \<open>sent\<close>, or \<open>sent\<close> and one assistant entry.
\<close>

definition one_reply :: "message list \<Rightarrow> decoder \<Rightarrow> bool" where
  "one_reply t d = (transcript d = t \<or> transcript d = fold_delta (assistantContent d) t)"

definition at_most_one_reply :: "message list \<Rightarrow> message list \<Rightarrow> bool" where
  "at_most_one_reply sent ms =
     (ms = sent \<or> ms \<noteq> [] \<and> butlast ms = sent \<and> role (last ms) = Assistant)"

text \<open>The messages \<^verbatim>\<open>streamAssistantChat\<close> sends (lines 212 to 216).\<close>

definition assistant_request :: "jstring option \<Rightarrow> jstring \<Rightarrow> ui \<Rightarrow> message list" where
  "assistant_request activeUrl userMessage u =
     [\<lparr>role = System, content = systemPrompt activeUrl\<rparr>] @ assistantMessages u @ [user userMessage]"

text \<open>A relay that answers every call with 429, and the component before any call.\<close>

definition always_limited :: "nat \<Rightarrow> fetched" where
  "always_limited k = Resolves \<lparr>r_status = 429, r_body = None, r_model_used = None\<rparr>"

definition ui_start :: ui where
  "ui_start = \<lparr>messages = [], isLoading = False, assistantMessages = [], isAssistantLoading = False,
                effects = []\<rparr>"

section \<open>The relay proxy: lemmas\<close>

lemma js_Nil [simp]: "js [] = []"
  by (simp add: js_def)

lemma js_Cons [simp]: "js (c # cs) = of_char c # js cs"
  by (simp add: js_def)

text \<open>The loop's equation unfolds itself: it is used one turn at a time, through the lemmas below.\<close>

declare retry_loop.simps [simp del]

lemma retry_loop_exhausted:
  "\<not> attempt < maxRetries \<Longrightarrow>
   retry_loop up msgs attempt model triedLite trace =
     (Inr rate_limits_exceeded, trace)"
  by (subst retry_loop.simps) simp

lemma retry_loop_ok:
  "attempt < maxRetries \<Longrightarrow> up attempt = Responds r \<Longrightarrow> u_ok r \<Longrightarrow>
   retry_loop up (Iterable ms) attempt model triedLite trace =
     (Inr (success_response model (u_body r)), trace @ [Fetch model ms])"
  by (subst retry_loop.simps) simp

lemma retry_loop_429:
  "attempt < maxRetries \<Longrightarrow> up attempt = Responds r \<Longrightarrow> u_status r = 429 \<Longrightarrow>
   retry_loop up (Iterable ms) attempt model triedLite trace =
     retry_loop up (Iterable ms) (attempt + 1) model triedLite
       (trace @ [Fetch model ms, Sleep (retryAfter (u_retry_after r) attempt)])"
  by (subst retry_loop.simps) (simp add: u_ok_def)

lemma retry_loop_402_first:
  "attempt < maxRetries \<Longrightarrow> up attempt = Responds r \<Longrightarrow> u_status r = 402 \<Longrightarrow>
   retry_loop up (Iterable ms) attempt model False trace =
     retry_loop up (Iterable ms) (attempt + 1) flash_lite True (trace @ [Fetch model ms])"
  by (subst retry_loop.simps) (simp add: u_ok_def)

lemma retry_loop_402_again:
  "attempt < maxRetries \<Longrightarrow> up attempt = Responds r \<Longrightarrow> u_status r = 402 \<Longrightarrow>
   retry_loop up (Iterable ms) attempt model True trace =
     (Inr payment_required, trace @ [Fetch model ms])"
  by (subst retry_loop.simps) (simp add: u_ok_def)

lemma retry_loop_other:
  "attempt < maxRetries \<Longrightarrow> up attempt = Responds r \<Longrightarrow>
   \<not> u_ok r \<Longrightarrow> u_status r \<noteq> 429 \<Longrightarrow> u_status r \<noteq> 402 \<Longrightarrow>
   retry_loop up (Iterable ms) attempt model triedLite trace =
     (case u_text r of
        Inl e \<Rightarrow> (Inl e, trace @ [Fetch model ms])
      | Inr t \<Rightarrow> (Inr gateway_error, trace @ [Fetch model ms, LogGatewayError (u_status r) t]))"
  by (subst retry_loop.simps) simp

lemma retry_loop_rejects:
  "attempt < maxRetries \<Longrightarrow> up attempt = FetchRejects e \<Longrightarrow>
   retry_loop up (Iterable ms) attempt model triedLite trace = (Inl e, trace @ [Fetch model ms])"
  by (subst retry_loop.simps) simp

lemma retry_loop_not_iterable:
  "attempt < maxRetries \<Longrightarrow>
   retry_loop up (NotIterable e) attempt model triedLite trace = (Inl e, trace)"
  by (subst retry_loop.simps) simp

lemma upstream_cases [case_names rejects ok limited quota other]:
  obtains e where "u = FetchRejects e"
  | r where "u = Responds r" "u_ok r"
  | r where "u = Responds r" "u_status r = 429"
  | r where "u = Responds r" "u_status r = 402"
  | r where "u = Responds r" "\<not> u_ok r" "u_status r \<noteq> 429" "u_status r \<noteq> 402"
  by (cases u) auto

lemma retry_loop_trace:
  "retry_loop up msgs attempt model triedLite trace =
     (fst (retry_loop up msgs attempt model triedLite []),
      trace @ snd (retry_loop up msgs attempt model triedLite []))"
proof (induction n \<equiv> "maxRetries - attempt" arbitrary: attempt model triedLite trace)
  case 0
  then have "\<not> attempt < maxRetries" by simp
  then show ?case by (simp add: retry_loop_exhausted)
next
  case (Suc n)
  then have lt: "attempt < maxRetries" and n: "n = maxRetries - (attempt + 1)" by simp_all
  note IH = Suc.hyps(1) [OF n]
  show ?case
  proof (cases msgs)
    case (NotIterable e)
    with lt show ?thesis by (simp add: retry_loop_not_iterable)
  next
    case (Iterable ms)
    show ?thesis
    proof (cases "up attempt" rule: upstream_cases)
      case (rejects e)
      with lt Iterable show ?thesis by (simp add: retry_loop_rejects)
    next
      case (ok r)
      with lt Iterable show ?thesis by (simp add: retry_loop_ok)
    next
      case (limited r)
      with lt Iterable show ?thesis
        using IH [of model triedLite "trace @ [Fetch model ms, Sleep (retryAfter (u_retry_after r) attempt)]"]
          IH [of model triedLite "[Fetch model ms, Sleep (retryAfter (u_retry_after r) attempt)]"]
        by (simp add: retry_loop_429 [where trace = trace] retry_loop_429 [where trace = "[]"])
    next
      case (quota r)
      show ?thesis
      proof (cases triedLite)
        case True
        with quota lt Iterable show ?thesis by (simp add: retry_loop_402_again)
      next
        case False
        with quota lt Iterable show ?thesis
          using IH [of flash_lite True "trace @ [Fetch model ms]"] IH [of flash_lite True "[Fetch model ms]"]
          by (simp add: retry_loop_402_first [where trace = trace] retry_loop_402_first [where trace = "[]"])
      qed
    next
      case (other r)
      with lt Iterable show ?thesis
        by (simp add: retry_loop_other split: sum.split)
    qed
  qed
qed

lemma requested_append [simp]: "requested (xs @ ys) = requested xs @ requested ys"
  by (induction xs rule: requested.induct) simp_all

lemma slept_append [simp]: "slept (xs @ ys) = slept xs @ slept ys"
  by (induction xs rule: slept.induct) simp_all

text \<open>One turn of the loop, from an empty trace: either it ends the run or it goes on.\<close>

lemma retry_loop_turn:
  assumes "attempt < maxRetries"
  obtains (ends) "requested (snd (retry_loop up msgs attempt model triedLite [])) = []
       \<or> requested (snd (retry_loop up msgs attempt model triedLite [])) = [model]"
  | (goes_on) ms r model' triedLite' d where
      "msgs = Iterable ms" "up attempt = Responds r" "\<not> u_ok r"
      "u_status r = 429 \<and> model' = model \<and> triedLite' = triedLite
         \<and> d = [Sleep (retryAfter (u_retry_after r) attempt)]
       \<or> u_status r = 402 \<and> \<not> triedLite \<and> model' = flash_lite \<and> triedLite' \<and> d = []"
      "retry_loop up msgs attempt model triedLite [] =
         (fst (retry_loop up msgs (attempt + 1) model' triedLite' []),
          Fetch model ms # d @ snd (retry_loop up msgs (attempt + 1) model' triedLite' []))"
proof (cases msgs)
  case (NotIterable e)
  with assms have "retry_loop up msgs attempt model triedLite [] = (Inl e, [])"
    by (simp add: retry_loop_not_iterable)
  then show ?thesis by (intro ends) simp
next
  case (Iterable ms)
  show ?thesis
  proof (cases "up attempt" rule: upstream_cases)
    case (rejects e)
    with assms Iterable show ?thesis by (intro ends) (simp add: retry_loop_rejects)
  next
    case (ok r)
    with assms Iterable show ?thesis by (intro ends) (simp add: retry_loop_ok)
  next
    case (limited r)
    then have "\<not> u_ok r" by (simp add: u_ok_def)
    with limited assms Iterable show ?thesis
      by (intro goes_on [of ms r model triedLite "[Sleep (retryAfter (u_retry_after r) attempt)]"])
         (simp_all add: retry_loop_429 [where trace = "[]"]
            retry_loop_trace [where trace = "[Fetch model ms, Sleep (retryAfter (u_retry_after r) attempt)]"])
  next
    case (quota r)
    then have nok: "\<not> u_ok r" by (simp add: u_ok_def)
    show ?thesis
    proof (cases triedLite)
      case True
      with quota assms Iterable show ?thesis by (intro ends) (simp add: retry_loop_402_again)
    next
      case False
      with quota nok assms Iterable show ?thesis
        by (intro goes_on [of ms r flash_lite True "[]"])
           (simp_all add: retry_loop_402_first [where trace = "[]"]
              retry_loop_trace [where trace = "[Fetch model ms]"])
    qed
  next
    case (other r)
    with assms Iterable show ?thesis
      by (intro ends) (simp add: retry_loop_other split: sum.split)
  qed
qed

lemma retry_loop_models:
  "\<exists>a b. requested (snd (retry_loop up msgs attempt model triedLite []))
            = replicate a model @ replicate b flash_lite
        \<and> a + b \<le> maxRetries - attempt"
proof (induction n \<equiv> "maxRetries - attempt" arbitrary: attempt model triedLite)
  case 0
  then have "\<not> attempt < maxRetries" by simp
  then have "requested (snd (retry_loop up msgs attempt model triedLite [])) = []"
    by (simp add: retry_loop_exhausted)
  then show ?case by simp
next
  case (Suc n)
  then have lt: "attempt < maxRetries" and n: "n = maxRetries - (attempt + 1)" by simp_all
  let ?R = "retry_loop up msgs attempt model triedLite []"
  from lt show ?case
  proof (cases rule: retry_loop_turn [where up = up and msgs = msgs and model = model
        and triedLite = triedLite])
    case ends
    then show ?thesis
    proof
      assume "requested (snd ?R) = []"
      then show ?thesis by simp
    next
      assume "requested (snd ?R) = [model]"
      then have "requested (snd ?R) = replicate 1 model @ replicate 0 flash_lite" by simp
      moreover have "1 + 0 \<le> maxRetries - attempt" using lt by simp
      ultimately show ?thesis by blast
    qed
  next
    case (goes_on ms r model' triedLite' d)
    from Suc.hyps(1) [OF n, of model' triedLite'] obtain a b where
      ab: "requested (snd (retry_loop up msgs (attempt + 1) model' triedLite' []))
             = replicate a model' @ replicate b flash_lite"
          "a + b \<le> maxRetries - (attempt + 1)"
      by blast
    have d: "requested d = []" using goes_on(4) by auto
    from goes_on(4) show ?thesis
    proof
      assume "u_status r = 429 \<and> model' = model \<and> triedLite' = triedLite
         \<and> d = [Sleep (retryAfter (u_retry_after r) attempt)]"
      then have "requested (snd ?R) = replicate (Suc a) model @ replicate b flash_lite"
        using goes_on(5) ab(1) d by simp
      moreover have "Suc a + b \<le> maxRetries - attempt" using ab(2) lt by simp
      ultimately show ?thesis by blast
    next
      assume "u_status r = 402 \<and> \<not> triedLite \<and> model' = flash_lite \<and> triedLite' \<and> d = []"
      then have "requested (snd ?R) = replicate 1 model @ replicate (a + b) flash_lite"
        using goes_on(5) ab(1) d by (simp add: replicate_add)
      moreover have "1 + (a + b) \<le> maxRetries - attempt" using ab(2) lt by simp
      ultimately show ?thesis by blast
    qed
  qed
qed

lemma retry_loop_ok_ends:
  assumes "k < length (requested (snd (retry_loop up msgs attempt model triedLite [])))"
    and "up (attempt + k) = Responds r" and "u_ok r"
  shows "fst (retry_loop up msgs attempt model triedLite [])
           = Inr (success_response (requested (snd (retry_loop up msgs attempt model triedLite [])) ! k)
                    (u_body r))
         \<and> length (requested (snd (retry_loop up msgs attempt model triedLite []))) = k + 1"
  using assms
proof (induction n \<equiv> "maxRetries - attempt" arbitrary: attempt model triedLite k)
  case 0
  then have "\<not> attempt < maxRetries" by simp
  with "0.prems"(1) show ?case by (simp add: retry_loop_exhausted)
next
  case (Suc n)
  then have lt: "attempt < maxRetries" and n: "n = maxRetries - (attempt + 1)" by simp_all
  let ?R = "retry_loop up msgs attempt model triedLite []"
  show ?case
  proof (cases k)
    case 0
    from Suc.prems(1) lt obtain ms where "msgs = Iterable ms"
      by (cases msgs) (auto simp: retry_loop_not_iterable)
    with 0 lt Suc.prems(2,3) show ?thesis by (simp add: retry_loop_ok)
  next
    case (Suc k')
    from lt show ?thesis
    proof (cases rule: retry_loop_turn [where up = up and msgs = msgs and model = model
          and triedLite = triedLite])
      case ends
      with Suc Suc.prems(1) show ?thesis by auto
    next
      case (goes_on ms r' model' triedLite' d)
      let ?R' = "retry_loop up msgs (attempt + 1) model' triedLite' []"
      have d: "requested d = []" using goes_on(4) by auto
      have req: "requested (snd ?R) = model # requested (snd ?R')"
        using goes_on(5) d by simp
      have "k' < length (requested (snd ?R'))" using Suc.prems(1) Suc req by simp
      moreover have "up (attempt + 1 + k') = Responds r" using Suc.prems(2) Suc by simp
      ultimately have "fst ?R' = Inr (success_response (requested (snd ?R') ! k') (u_body r))
          \<and> length (requested (snd ?R')) = k' + 1"
        using Suc.hyps(1) [OF n] Suc.prems(3) by blast
      then show ?thesis using req Suc goes_on(5) by simp
    qed
  qed
qed

lemma retry_loop_402_ends:
  assumes "k < length (requested (snd (retry_loop up msgs attempt model triedLite [])))"
    and "up (attempt + k) = Responds r" and "u_status r = 402"
    and "triedLite \<or> (\<exists>j<k. \<exists>r'. up (attempt + j) = Responds r' \<and> u_status r' = 402)"
  shows "fst (retry_loop up msgs attempt model triedLite []) = Inr payment_required
         \<and> length (requested (snd (retry_loop up msgs attempt model triedLite []))) = k + 1"
  using assms
proof (induction n \<equiv> "maxRetries - attempt" arbitrary: attempt model triedLite k)
  case 0
  then have "\<not> attempt < maxRetries" by simp
  with "0.prems"(1) show ?case by (simp add: retry_loop_exhausted)
next
  case (Suc n)
  then have lt: "attempt < maxRetries" and n: "n = maxRetries - (attempt + 1)" by simp_all
  let ?R = "retry_loop up msgs attempt model triedLite []"
  from Suc.prems(1) lt obtain ms where ms: "msgs = Iterable ms"
    by (cases msgs) (auto simp: retry_loop_not_iterable)
  show ?case
  proof (cases k)
    case 0
    with Suc.prems(4) have "triedLite" by simp
    with 0 lt ms Suc.prems(2,3) show ?thesis
      by (simp add: retry_loop_402_again)
  next
    case (Suc k')
    from lt show ?thesis
    proof (cases rule: retry_loop_turn [where up = up and msgs = msgs and model = model
          and triedLite = triedLite])
      case ends
      with Suc Suc.prems(1) show ?thesis by auto
    next
      case (goes_on ms r' model' triedLite' d)
      let ?R' = "retry_loop up msgs (attempt + 1) model' triedLite' []"
      have d: "requested d = []" using goes_on(4) by auto
      have req: "requested (snd ?R) = model # requested (snd ?R')"
        using goes_on(5) d by simp
      have 1: "k' < length (requested (snd ?R'))" using Suc.prems(1) Suc req by simp
      have 2: "up (attempt + 1 + k') = Responds r" using Suc.prems(2) Suc by simp
      have 3: "triedLite' \<or> (\<exists>j<k'. \<exists>r'. up (attempt + 1 + j) = Responds r' \<and> u_status r' = 402)"
      proof (cases "triedLite'")
        case True
        then show ?thesis by simp
      next
        case False
        with goes_on(4) have st: "u_status r' = 429" and nt: "\<not> triedLite" by auto
        with Suc.prems(4) obtain j r'' where j: "j < k" "up (attempt + j) = Responds r''" "u_status r'' = 402"
          by blast
        with goes_on(2) st have "j \<noteq> 0" by (cases j) auto
        then obtain j' where "j = Suc j'" by (cases j) auto
        with j Suc have "j' < k'" "up (attempt + 1 + j') = Responds r''" by simp_all
        with j(3) show ?thesis by blast
      qed
      from Suc.hyps(1) [OF n 1 2 Suc.prems(3) 3]
      show ?thesis using req Suc goes_on(5) by simp
    qed
  qed
qed

lemma serve_handler_run:
  assumes "req_method req \<noteq> js ''OPTIONS''" and "req_json req = Inr msgs" and "configured key"
  shows "serve_handler key up req =
     (case retry_loop up msgs 0 flash False [] of
        (Inl e, trace) \<Rightarrow> (error_response 500 e, trace @ [LogChatError e])
      | (Inr response, trace) \<Rightarrow> (response, trace))"
  using assms by (simp add: serve_handler_def)

lemma serve_handler_no_call:
  assumes "req_method req = js ''OPTIONS'' \<or> (\<exists>e. req_json req = Inl e) \<or> \<not> configured key"
  shows "requested (snd (serve_handler key up req)) = []"
  using assms by (auto simp: serve_handler_def split: sum.splits)

lemma serve_handler_calls:
  fixes req :: "'m request"
  assumes "requested (snd (serve_handler key up req)) \<noteq> []"
  shows "\<exists>msgs :: 'm messages.
    requested (snd (serve_handler key up req)) = requested (snd (retry_loop up msgs 0 flash False []))
    \<and> (\<forall>resp. fst (retry_loop up msgs 0 flash False []) = Inr resp
           \<longrightarrow> fst (serve_handler key up req) = resp)
    \<and> (\<forall>e. fst (retry_loop up msgs 0 flash False []) = Inl e
           \<longrightarrow> fst (serve_handler key up req) = error_response 500 e)"
proof -
  from assms serve_handler_no_call [of req key up]
  have m: "req_method req \<noteq> js ''OPTIONS''" and "\<nexists>e. req_json req = Inl e" and c: "configured key"
    by blast+
  then obtain msgs where j: "req_json req = Inr msgs" by (cases "req_json req") auto
  note run = serve_handler_run [OF m j c, of up]
  show ?thesis
    by (rule exI [of _ msgs], cases "retry_loop up msgs 0 flash False []")
       (auto simp: run split: sum.splits)
qed

lemma retry_loop_first_fetch:
  assumes "attempt < maxRetries"
  shows "\<exists>res rest. retry_loop up (Iterable ms) attempt model triedLite trace
            = (res, trace @ Fetch model ms # rest)"
proof (cases "up attempt" rule: upstream_cases)
  case (rejects e)
  with assms show ?thesis by (simp add: retry_loop_rejects)
next
  case (ok r)
  with assms show ?thesis by (simp add: retry_loop_ok)
next
  case (limited r)
  with assms show ?thesis
    by (simp add: retry_loop_429
        retry_loop_trace [where trace = "trace @ [Fetch model ms, Sleep (retryAfter (u_retry_after r) attempt)]"])
next
  case (quota r)
  with assms show ?thesis
    by (cases triedLite)
       (simp_all add: retry_loop_402_again retry_loop_402_first
          retry_loop_trace [where trace = "trace @ [Fetch model ms]"])
next
  case (other r)
  with assms show ?thesis by (simp add: retry_loop_other split: sum.split)
qed

lemma retry_loop_other_ends:
  assumes "k < length (requested (snd (retry_loop up msgs attempt model triedLite [])))"
    and "up (attempt + k) = Responds r"
    and "\<not> u_ok r" and "u_status r \<noteq> 429" and "u_status r \<noteq> 402"
  shows "fst (retry_loop up msgs attempt model triedLite [])
           = (case u_text r of Inl e \<Rightarrow> Inl e | Inr t \<Rightarrow> Inr gateway_error)
         \<and> length (requested (snd (retry_loop up msgs attempt model triedLite []))) = k + 1"
  using assms
proof (induction n \<equiv> "maxRetries - attempt" arbitrary: attempt model triedLite k)
  case 0
  then have "\<not> attempt < maxRetries" by simp
  with "0.prems"(1) show ?case by (simp add: retry_loop_exhausted)
next
  case (Suc n)
  then have lt: "attempt < maxRetries" and n: "n = maxRetries - (attempt + 1)" by simp_all
  let ?R = "retry_loop up msgs attempt model triedLite []"
  show ?case
  proof (cases k)
    case 0
    from Suc.prems(1) lt obtain ms where "msgs = Iterable ms"
      by (cases msgs) (auto simp: retry_loop_not_iterable)
    with 0 lt Suc.prems(2-) show ?thesis by (simp add: retry_loop_other split: sum.split)
  next
    case (Suc k')
    from lt show ?thesis
    proof (cases rule: retry_loop_turn [where up = up and msgs = msgs and model = model
          and triedLite = triedLite])
      case ends
      with Suc Suc.prems(1) show ?thesis by auto
    next
      case (goes_on ms r' model' triedLite' d)
      let ?R' = "retry_loop up msgs (attempt + 1) model' triedLite' []"
      have d: "requested d = []" using goes_on(4) by auto
      have req: "requested (snd ?R) = model # requested (snd ?R')"
        using goes_on(5) d by simp
      have "k' < length (requested (snd ?R'))" using Suc.prems(1) Suc req by simp
      moreover have "up (attempt + 1 + k') = Responds r" using Suc.prems(2) Suc by simp
      ultimately have "fst ?R' = (case u_text r of Inl e \<Rightarrow> Inl e | Inr t \<Rightarrow> Inr gateway_error)
          \<and> length (requested (snd ?R')) = k' + 1"
        using Suc.hyps(1) [OF n] Suc.prems(3-) by blast
      then show ?thesis using req Suc goes_on(5) by simp
    qed
  qed
qed

lemma serve_handler_other:
  fixes req :: "'m request"
  assumes "k < length (requested (snd (serve_handler key up req)))"
    and "up k = Responds r"
    and "\<not> u_ok r" and "u_status r \<noteq> 429" and "u_status r \<noteq> 402"
  shows "fst (serve_handler key up req)
           = (case u_text r of Inl e \<Rightarrow> error_response 500 e | Inr t \<Rightarrow> gateway_error)
         \<and> length (requested (snd (serve_handler key up req))) = k + 1"
proof -
  from assms(1) have "requested (snd (serve_handler key up req)) \<noteq> []" by auto
  from serve_handler_calls [OF this] obtain msgs :: "'m messages" where
    req: "requested (snd (serve_handler key up req)) = requested (snd (retry_loop up msgs 0 flash False []))"
    and res: "\<And>resp. fst (retry_loop up msgs 0 flash False []) = Inr resp
           \<Longrightarrow> fst (serve_handler key up req) = resp"
    and err: "\<And>e. fst (retry_loop up msgs 0 flash False []) = Inl e
           \<Longrightarrow> fst (serve_handler key up req) = error_response 500 e"
    by blast
  from retry_loop_other_ends [of k up msgs 0 flash False r] assms req
  have 1: "fst (retry_loop up msgs 0 flash False [])
           = (case u_text r of Inl e \<Rightarrow> Inl e | Inr t \<Rightarrow> Inr gateway_error)"
    and 2: "length (requested (snd (serve_handler key up req))) = k + 1"
    by simp_all
  show ?thesis
  proof (cases "u_text r")
    case (Inl e)
    with 1 err [of e] 2 show ?thesis by simp
  next
    case (Inr t)
    with 1 res [of gateway_error] 2 show ?thesis by simp
  qed
qed

lemma retry_loop_limited_run:
  assumes "attempt \<le> M" and "M \<le> maxRetries"
    and "\<forall>k. attempt \<le> k \<and> k < M \<longrightarrow> up k = Responds (rs k) \<and> u_status (rs k) = 429"
  shows "retry_loop up (Iterable ms) attempt model triedLite trace =
     retry_loop up (Iterable ms) M model triedLite
       (trace @ concat (map (\<lambda>k. [Fetch model ms, Sleep (retryAfter (u_retry_after (rs k)) k)])
                          [attempt..<M]))"
  using assms
proof (induction n \<equiv> "M - attempt" arbitrary: attempt trace)
  case 0
  then show ?case by simp
next
  case (Suc n)
  then have lt: "attempt < M" and n: "n = M - (attempt + 1)" by simp_all
  with Suc.prems have a: "attempt < maxRetries" "up attempt = Responds (rs attempt)"
      "u_status (rs attempt) = 429"
    by simp_all
  have "\<forall>k. attempt + 1 \<le> k \<and> k < M \<longrightarrow> up k = Responds (rs k) \<and> u_status (rs k) = 429"
    using Suc.prems(3) by simp
  from Suc.hyps(1) [OF n _ Suc.prems(2) this,
      of "trace @ [Fetch model ms, Sleep (retryAfter (u_retry_after (rs attempt)) attempt)]"] lt
  show ?case
    by (simp add: retry_loop_429 [where up = up and attempt = attempt and r = "rs attempt", OF a] upt_conv_Cons)
qed

lemma slept_turns:
  "slept (concat (map (\<lambda>k. [Fetch model ms, Sleep (f k)]) ks)) = map f ks"
  by (induction ks) simp_all

lemma requested_turns:
  "requested (concat (map (\<lambda>k. [Fetch model ms, Sleep (f k)]) ks)) = replicate (length ks) model"
  by (induction ks) simp_all

text \<open>The definitions a concrete run of the handler unfolds.\<close>

lemmas run_defs = serve_handler_def post_def answers_def answer_def failure_def hi_def configured_def
  retry_loop.simps u_ok_def retryAfter_def truthy_num_def maxRetries_def

section \<open>The conversation client: lemmas\<close>

text \<open>The loops are unfolded one turn at a time, through the lemmas below.\<close>

declare process_lines.simps [simp del] show_nat.simps [simp del] streamChat_loop.simps [simp del]

lemma process_lines_none:
  "indexOf (textBuffer d) 10 = None \<Longrightarrow> process_lines numberToString d = d"
  by (subst process_lines.simps) simp

lemma process_lines_line:
  "indexOf (textBuffer d) 10 = Some newlineIndex \<Longrightarrow>
   process_lines numberToString d =
     (let line0 = take newlineIndex (textBuffer d);
          d1 = d\<lparr>textBuffer := drop (newlineIndex + 1) (textBuffer d)\<rparr>;
          line = (if endsWith line0 [13] then butlast line0 else line0)
      in if startsWith line (js '':'') \<or> trim line = [] then process_lines numberToString d1
         else if \<not> startsWith line (js ''data: '') then process_lines numberToString d1
         else
           (let jsonStr = trim (drop 6 line)
            in if jsonStr = js ''[DONE]'' then d1\<lparr>streamDone := True\<rparr>
               else
                 (case try_content numberToString jsonStr of
                    Threw \<Rightarrow> d1\<lparr>textBuffer := line @ [10] @ textBuffer d1\<rparr>
                  | NoContent \<Rightarrow> process_lines numberToString d1
                  | Content delta \<Rightarrow>
                      process_lines numberToString
                        (d1\<lparr>assistantContent := assistantContent d1 @ delta,
                            transcript := fold_delta (assistantContent d1 @ delta) (transcript d1)\<rparr>))))"
  by (subst process_lines.simps) simp

lemmas decode_defs = feed_def decoder_start_def process_lines_line process_lines_none
  startsWith_def endsWith_def trim_def is_space_def try_content_def JSON_parse_def start_def
  is_json_space_def word_char_def digit_def punctuation_def member_def optional_def truthy_def

lemma fold_delta_replace:
  assumes "prev \<noteq> []" and "role (last prev) = Assistant"
  shows "fold_delta acc prev = butlast prev @ [\<lparr>role = Assistant, content = acc\<rparr>]"
proof (rule nth_equalityI)
  show "length (fold_delta acc prev) = length (butlast prev @ [\<lparr>role = Assistant, content = acc\<rparr>])"
    using assms by (simp add: fold_delta_def)
next
  fix i
  assume "i < length (fold_delta acc prev)"
  then have i: "i < length prev" using assms by (simp add: fold_delta_def)
  have upd: "(last prev)\<lparr>content := acc\<rparr> = \<lparr>role = Assistant, content = acc\<rparr>"
    using assms(2) by (cases "last prev") simp
  show "fold_delta acc prev ! i = (butlast prev @ [\<lparr>role = Assistant, content = acc\<rparr>]) ! i"
  proof (cases "i = length prev - 1")
    case True
    with i assms upd show ?thesis
      by (simp add: fold_delta_def nth_enumerate_eq nth_append last_conv_nth)
  next
    case False
    with i assms show ?thesis
      by (simp add: fold_delta_def nth_enumerate_eq nth_append nth_butlast)
  qed
qed

lemma fold_delta_append:
  assumes "prev = [] \<or> role (last prev) \<noteq> Assistant"
  shows "fold_delta acc prev = prev @ [\<lparr>role = Assistant, content = acc\<rparr>]"
  using assms by (auto simp: fold_delta_def)

lemma fold_delta_again: "fold_delta a (fold_delta b t) = fold_delta a t"
proof (cases "t \<noteq> [] \<and> role (last t) = Assistant")
  case True
  then have "fold_delta b t = butlast t @ [\<lparr>role = Assistant, content = b\<rparr>]"
    by (simp add: fold_delta_replace)
  then show ?thesis using True by (simp add: fold_delta_replace)
next
  case False
  then have "fold_delta b t = t @ [\<lparr>role = Assistant, content = b\<rparr>]"
    by (simp add: fold_delta_append)
  then show ?thesis using False by (simp add: fold_delta_replace fold_delta_append)
qed

lemma indexOf_less: "indexOf xs c = Some i \<Longrightarrow> i < length xs"
  by (induction xs arbitrary: i) (auto split: if_splits)

lemma process_lines_cases [consumes 1, case_names skip finish rebuffer delta]:
  assumes "indexOf (textBuffer d) 10 = Some i"
  obtains "process_lines n d = process_lines n (d\<lparr>textBuffer := drop (i + 1) (textBuffer d)\<rparr>)"
  | "process_lines n d = d\<lparr>textBuffer := drop (i + 1) (textBuffer d), streamDone := True\<rparr>"
  | line where "process_lines n d = d\<lparr>textBuffer := line @ [10] @ drop (i + 1) (textBuffer d)\<rparr>"
  | c where "process_lines n d =
       process_lines n
         (d\<lparr>textBuffer := drop (i + 1) (textBuffer d),
            assistantContent := assistantContent d @ c,
            transcript := fold_delta (assistantContent d @ c) (transcript d)\<rparr>)"
proof -
  define line0 where "line0 = take i (textBuffer d)"
  define d1 where "d1 = d\<lparr>textBuffer := drop (i + 1) (textBuffer d)\<rparr>"
  define line where "line = (if endsWith line0 [13] then butlast line0 else line0)"
  define jsonStr where "jsonStr = trim (drop 6 line)"
  have step: "process_lines n d =
     (if startsWith line (js '':'') \<or> trim line = [] then process_lines n d1
      else if \<not> startsWith line (js ''data: '') then process_lines n d1
      else if jsonStr = js ''[DONE]'' then d1\<lparr>streamDone := True\<rparr>
      else (case try_content n jsonStr of
              Threw \<Rightarrow> d1\<lparr>textBuffer := line @ [10] @ textBuffer d1\<rparr>
            | NoContent \<Rightarrow> process_lines n d1
            | Content delta \<Rightarrow>
                process_lines n
                  (d1\<lparr>assistantContent := assistantContent d1 @ delta,
                      transcript := fold_delta (assistantContent d1 @ delta) (transcript d1)\<rparr>)))"
    unfolding line0_def d1_def line_def jsonStr_def
    by (simp only: process_lines_line [OF assms, of n] Let_def)
  consider (a) "startsWith line (js '':'') \<or> trim line = [] \<or> \<not> startsWith line (js ''data: '')"
    | (b) "\<not> (startsWith line (js '':'') \<or> trim line = [])" "startsWith line (js ''data: '')"
          "jsonStr = js ''[DONE]''"
    | (c) "\<not> (startsWith line (js '':'') \<or> trim line = [])" "startsWith line (js ''data: '')"
          "jsonStr \<noteq> js ''[DONE]''"
    by blast
  then show thesis
  proof cases
    case a
    then have "process_lines n d = process_lines n d1" by (elim disjE) (simp_all add: step)
    then show thesis unfolding d1_def by (rule that(1))
  next
    case b
    then have "process_lines n d = d1\<lparr>streamDone := True\<rparr>" by (simp add: step)
    then show thesis unfolding d1_def by (rule that(2))
  next
    case c
    then have tc: "process_lines n d =
       (case try_content n jsonStr of
              Threw \<Rightarrow> d1\<lparr>textBuffer := line @ [10] @ textBuffer d1\<rparr>
            | NoContent \<Rightarrow> process_lines n d1
            | Content delta \<Rightarrow>
                process_lines n
                  (d1\<lparr>assistantContent := assistantContent d1 @ delta,
                      transcript := fold_delta (assistantContent d1 @ delta) (transcript d1)\<rparr>))"
      by (simp add: step)
    show thesis
    proof (cases "try_content n jsonStr")
      case Threw
      with tc have "process_lines n d = d\<lparr>textBuffer := line @ [10] @ drop (i + 1) (textBuffer d)\<rparr>"
        by (simp add: d1_def)
      then show thesis by (rule that(3))
    next
      case NoContent
      with tc have "process_lines n d = process_lines n d1" by simp
      then show thesis unfolding d1_def by (rule that(1))
    next
      case (Content c)
      with tc have "process_lines n d =
         process_lines n
           (d\<lparr>textBuffer := drop (i + 1) (textBuffer d),
              assistantContent := assistantContent d @ c,
              transcript := fold_delta (assistantContent d @ c) (transcript d)\<rparr>)"
        by (simp add: d1_def)
      then show thesis by (rule that(4))
    qed
  qed
qed

lemma process_lines_one_reply:
  "one_reply t d \<Longrightarrow> one_reply t (process_lines n d)"
proof (induction "length (textBuffer d)" arbitrary: d rule: less_induct)
  case less
  show ?case
  proof (cases "indexOf (textBuffer d) 10")
    case None
    with less.prems show ?thesis by (simp add: process_lines_none)
  next
    case (Some i)
    then have shorter: "length (drop (i + 1) (textBuffer d)) < length (textBuffer d)"
      using indexOf_less by fastforce
    from Some show ?thesis
    proof (cases rule: process_lines_cases [where n = n])
      case skip
      with less.hyps [of "d\<lparr>textBuffer := drop (i + 1) (textBuffer d)\<rparr>"] shorter less.prems
      show ?thesis by (simp add: one_reply_def)
    next
      case finish
      with less.prems show ?thesis by (simp add: one_reply_def)
    next
      case (rebuffer line)
      with less.prems show ?thesis by (simp add: one_reply_def)
    next
      case (delta c)
      have "one_reply t (d\<lparr>textBuffer := drop (i + 1) (textBuffer d),
            assistantContent := assistantContent d @ c,
            transcript := fold_delta (assistantContent d @ c) (transcript d)\<rparr>)"
        using less.prems by (auto simp: one_reply_def fold_delta_again)
      with less.hyps [of "d\<lparr>textBuffer := drop (i + 1) (textBuffer d),
            assistantContent := assistantContent d @ c,
            transcript := fold_delta (assistantContent d @ c) (transcript d)\<rparr>"] shorter delta
      show ?thesis by simp
    qed
  qed
qed

lemma feed_one_reply: "one_reply t d \<Longrightarrow> one_reply t (feed n chunk d)"
  unfolding feed_def by (rule process_lines_one_reply) (simp add: one_reply_def)

lemma read_loop_one_reply:
  "one_reply t d \<Longrightarrow> read_loop n reads d = Returned d' \<or> read_loop n reads d = Thrown d'
    \<Longrightarrow> one_reply t d'"
proof (induction reads arbitrary: d)
  case Nil
  then show ?case by simp
next
  case (Cons r rs)
  show ?case
  proof (cases "streamDone d")
    case True
    with Cons.prems show ?thesis by simp
  next
    case False
    show ?thesis
    proof (cases r)
      case (Chunk chunk)
      with False Cons.prems(2) have "read_loop n rs (feed n chunk d) = Returned d'
          \<or> read_loop n rs (feed n chunk d) = Thrown d'" by simp
      with Cons.IH [OF feed_one_reply [OF Cons.prems(1)]] show ?thesis .
    next
      case ReadRejects
      with False Cons.prems show ?thesis by simp
    qed
  qed
qed

lemma one_reply_start: "one_reply t (decoder_start t)"
  by (simp add: one_reply_def decoder_start_def)

lemma at_most_one_reply_iff:
  "at_most_one_reply sent ms \<longleftrightarrow> ms = sent \<or> (\<exists>c. ms = sent @ [assistant c])"
proof -
  have "ms = butlast ms @ [assistant (content (last ms))]" if "ms \<noteq> []" "role (last ms) = Assistant"
  proof -
    from that(2) have "last ms = assistant (content (last ms))"
      by (cases "last ms") (simp add: assistant_def)
    with that(1) show ?thesis by (metis append_butlast_last_id)
  qed
  then show ?thesis
    unfolding at_most_one_reply_def by (auto simp: assistant_def)
qed

lemma posts_append [simp]: "posts (xs @ ys) = posts xs + posts ys"
  by (induction xs rule: posts.induct) simp_all

lemma waits_append [simp]: "waits (xs @ ys) = waits xs @ waits ys"
  by (induction xs rule: waits.induct) simp_all

lemma emit_simps [simp]:
  "messages (emit es u) = messages u"
  "isLoading (emit es u) = isLoading u"
  "assistantMessages (emit es u) = assistantMessages u"
  "isAssistantLoading (emit es u) = isAssistantLoading u"
  "effects (emit es u) = effects u @ es"
  by (simp_all add: emit_def)

lemma streamChat_loop_return:
  "attempt < chat_maxRetries \<Longrightarrow> streamChat_turn n net sent attempt u = Return u' \<Longrightarrow>
   streamChat_loop n net sent attempt u = u'"
  by (subst streamChat_loop.simps) simp

lemma streamChat_loop_retry:
  "attempt < chat_maxRetries \<Longrightarrow> streamChat_turn n net sent attempt u = Retry u' \<Longrightarrow>
   streamChat_loop n net sent attempt u = streamChat_loop n net sent (attempt + 1) u'"
  by (subst streamChat_loop.simps) simp

lemma streamChat_loop_over:
  "\<not> attempt < chat_maxRetries \<Longrightarrow> streamChat_loop n net sent attempt u = u"
  by (subst streamChat_loop.simps) simp

lemma streamChat_turn_429:
  assumes "net attempt = Resolves r" and "r_status r = 429"
  shows "streamChat_turn n net sent attempt u =
     (if attempt + 1 < chat_maxRetries then
        Retry (emit [Toast (js ''Rate limited'') (rate_limited_description (700 * (attempt + 1))) None,
                     Wait (700 * (attempt + 1))] (emit [Post sent] u))
      else
        Return ((emit [Toast (js ''Rate limit exceeded'') (js ''Please try again a bit later.'')
                         destructive] (emit [Post sent] u))
                  \<lparr>isLoading := False\<rparr>))"
  using assms by (simp add: streamChat_turn_def)

lemma rate_limited_description_1: "rate_limited_description 700 = js ''Retrying in 1s...''"
  "rate_limited_description 1400 = js ''Retrying in 1s...''"
  by (simp_all add: rate_limited_description_def show_nat.simps [of "Suc 0"])

lemma streamChat_loop_all_429:
  assumes "\<forall>k<chat_maxRetries. \<exists>r. net k = Resolves r \<and> r_status r = 429"
  shows "streamChat_loop n net sent 0 u =
     u\<lparr>isLoading := False,
       effects := effects u @
         [Post sent, Toast (js ''Rate limited'') (js ''Retrying in 1s...'') None, Wait 700,
          Post sent, Toast (js ''Rate limited'') (js ''Retrying in 1s...'') None, Wait 1400,
          Post sent, Toast (js ''Rate limit exceeded'') (js ''Please try again a bit later.'') destructive]\<rparr>"
proof -
  from assms obtain r0 r1 r2 where
    r: "net 0 = Resolves r0" "r_status r0 = 429" "net 1 = Resolves r1" "r_status r1 = 429"
       "net 2 = Resolves r2" "r_status r2 = 429"
    unfolding chat_maxRetries_def
    by (metis One_nat_def Suc_1 lessI less_SucI numeral_3_eq_3 zero_less_Suc)
  let ?u1 = "emit [Toast (js ''Rate limited'') (js ''Retrying in 1s...'') None, Wait 700] (emit [Post sent] u)"
  let ?u2 = "emit [Toast (js ''Rate limited'') (js ''Retrying in 1s...'') None, Wait 1400] (emit [Post sent] ?u1)"
  let ?u3 = "(emit [Toast (js ''Rate limit exceeded'') (js ''Please try again a bit later.'') destructive]
               (emit [Post sent] ?u2))\<lparr>isLoading := False\<rparr>"
  have t0: "streamChat_turn n net sent 0 u = Retry ?u1"
    using streamChat_turn_429 [where net = net and attempt = 0 and r = r0, OF r(1,2), of n sent u]
    by (simp add: chat_maxRetries_def rate_limited_description_1)
  have t1: "streamChat_turn n net sent 1 ?u1 = Retry ?u2"
    using streamChat_turn_429 [where net = net and attempt = 1 and r = r1, OF r(3,4), of n sent ?u1]
    by (simp add: chat_maxRetries_def rate_limited_description_1)
  have t2: "streamChat_turn n net sent 2 ?u2 = Return ?u3"
    using streamChat_turn_429 [where net = net and attempt = 2 and r = r2, OF r(5,6), of n sent ?u2]
    by (simp add: chat_maxRetries_def)
  have "streamChat_loop n net sent 0 u = streamChat_loop n net sent 1 ?u1"
    using streamChat_loop_retry [OF _ t0] by (simp add: chat_maxRetries_def)
  also have "\<dots> = streamChat_loop n net sent 2 ?u2"
    using streamChat_loop_retry [OF _ t1] by (simp add: chat_maxRetries_def numeral_2_eq_2)
  also have "\<dots> = ?u3"
    by (rule streamChat_loop_return [OF _ t2]) (simp add: chat_maxRetries_def)
  finally show ?thesis by (simp add: emit_def)
qed

lemma chat_catch_messages:
  "chat_catch attempt u = Return u' \<or> chat_catch attempt u = Retry u' \<Longrightarrow> messages u' = messages u"
  by (auto simp: chat_catch_def split: if_splits)

lemma reply_decoded:
  assumes "at_most_one_reply sent t" and "sent \<noteq> []" and "role (last sent) \<noteq> Assistant"
    and "read_loop n reads (decoder_start t) = Returned d \<or> read_loop n reads (decoder_start t) = Thrown d"
  shows "at_most_one_reply sent (transcript d)"
proof -
  from read_loop_one_reply [OF one_reply_start assms(4)]
  have "transcript d = t \<or> transcript d = fold_delta (assistantContent d) t"
    by (simp add: one_reply_def)
  then show ?thesis
  proof
    assume "transcript d = t"
    with assms(1) show ?thesis by simp
  next
    assume d: "transcript d = fold_delta (assistantContent d) t"
    from assms(1) have "fold_delta (assistantContent d) t = sent @ [assistant (assistantContent d)]"
      unfolding at_most_one_reply_iff
    proof
      assume "t = sent"
      with assms(2,3) show ?thesis by (simp add: fold_delta_append assistant_def)
    next
      assume "\<exists>c. t = sent @ [assistant c]"
      then obtain c where "t = sent @ [assistant c]" ..
      then show ?thesis by (simp add: fold_delta_replace assistant_def)
    qed
    with d show ?thesis by (auto simp: at_most_one_reply_iff)
  qed
qed

lemma streamChat_turn_reply:
  assumes "at_most_one_reply sent (messages u)" and "sent \<noteq> []" and "role (last sent) \<noteq> Assistant"
    and "streamChat_turn n net sent' attempt u = Return u' \<or> streamChat_turn n net sent' attempt u = Retry u'"
  shows "at_most_one_reply sent (messages u')"
proof (cases "net attempt")
  case Rejects
  with assms(4) have "messages u' = messages (emit [Post sent'] u)"
    by (intro chat_catch_messages [of attempt]) (simp add: streamChat_turn_def Let_def)
  with assms(1) show ?thesis by simp
next
  case (Resolves resp)
  consider (limited) "r_status resp = 429"
    | (quota) "r_status resp \<noteq> 429" "r_status resp = 402"
    | (failed) "r_status resp \<noteq> 429" "r_status resp \<noteq> 402" "(if r_ok resp then r_body resp else None) = None"
    | (stream) reads where "r_status resp \<noteq> 429" "r_status resp \<noteq> 402"
        "(if r_ok resp then r_body resp else None) = Some reads"
    by (cases "if r_ok resp then r_body resp else None") auto
  then show ?thesis
  proof cases
    case limited
    with Resolves assms(4) have "messages u' = messages u"
      by (auto simp: streamChat_turn_429 split: if_splits)
    with assms(1) show ?thesis by simp
  next
    case quota
    with Resolves assms(4) have "messages u' = messages u"
      by (auto simp: streamChat_turn_def Let_def)
    with assms(1) show ?thesis by simp
  next
    case failed
    with Resolves assms(4) have "messages u' = messages (emit [Post sent'] u)"
      by (intro chat_catch_messages [of attempt]) (simp add: streamChat_turn_def Let_def)
    with assms(1) show ?thesis by simp
  next
    case (stream reads)
    define u1 where "u1 = economy_mode resp (emit [Post sent'] u)"
    have m1: "messages u1 = messages u" by (simp add: u1_def economy_mode_def split: option.split)
    have turn: "streamChat_turn n net sent' attempt u =
       (case read_loop n reads (decoder_start (messages u1)) of
          Returned d \<Rightarrow> Return (u1\<lparr>messages := transcript d, isLoading := False\<rparr>)
        | Thrown d \<Rightarrow> chat_catch attempt (u1\<lparr>messages := transcript d\<rparr>))"
      using Resolves stream unfolding u1_def by (simp add: streamChat_turn_def Let_def)
    show ?thesis
    proof (cases "read_loop n reads (decoder_start (messages u1))")
      case (Returned d)
      with turn assms(4) have "messages u' = transcript d" by auto
      with reply_decoded [OF assms(1-3), of n reads d] Returned m1 show ?thesis by simp
    next
      case (Thrown d)
      with turn assms(4) have "messages u' = messages (u1\<lparr>messages := transcript d\<rparr>)"
        by (intro chat_catch_messages [of attempt]) simp
      with reply_decoded [OF assms(1-3), of n reads d] Thrown m1 show ?thesis by simp
    qed
  qed
qed

lemma streamChat_loop_reply:
  assumes "at_most_one_reply sent (messages u)" and "sent \<noteq> []" and "role (last sent) \<noteq> Assistant"
  shows "at_most_one_reply sent (messages (streamChat_loop n net sent' attempt u))"
  using assms(1)
proof (induction k \<equiv> "chat_maxRetries - attempt" arbitrary: attempt u)
  case 0
  then show ?case by (simp add: streamChat_loop_over)
next
  case (Suc k)
  then have lt: "attempt < chat_maxRetries" and k: "k = chat_maxRetries - (attempt + 1)" by simp_all
  show ?case
  proof (cases "streamChat_turn n net sent' attempt u")
    case (Return u')
    with streamChat_turn_reply [OF Suc.prems assms(2,3), of n net sent' attempt u'] lt
    show ?thesis by (simp add: streamChat_loop_return)
  next
    case (Retry u')
    with streamChat_turn_reply [OF Suc.prems assms(2,3), of n net sent' attempt u']
    have "at_most_one_reply sent (messages u')" by simp
    from Suc.hyps(1) [OF k this] Retry lt show ?thesis by (simp add: streamChat_loop_retry)
  qed
qed

lemma streamChat_reply:
  "at_most_one_reply (messages u @ [user userMessage]) (messages (streamChat n net userMessage u))"
  unfolding streamChat_def Let_def user_def [symmetric]
  by (rule streamChat_loop_reply) (simp_all add: at_most_one_reply_iff user_def)

lemma assistant_catch_simps [simp]:
  "assistantMessages (assistant_catch u) = assistantMessages u"
  "messages (assistant_catch u) = messages u"
  "isLoading (assistant_catch u) = isLoading u"
  "isAssistantLoading (assistant_catch u) = False"
  "effects (assistant_catch u) =
     effects u @ [ConsoleError, Toast (js ''Error'') (js ''Failed to send message.'') destructive]"
  by (simp_all add: assistant_catch_def)

lemma streamAssistantChat_cases [case_names catch limited quota finished broken]:
  fixes u0 :: ui and activeUrl :: "jstring option" and userMessage :: jstring
  defines "u \<equiv> emit [Post (assistant_request activeUrl userMessage u0)]
                  (u0\<lparr>assistantMessages := assistantMessages u0 @ [user userMessage],
                      isAssistantLoading := True\<rparr>)"
  obtains "streamAssistantChat n fetched activeUrl userMessage u0 = assistant_catch u"
  | resp where "fetched = Resolves resp" "r_status resp = 429"
      "streamAssistantChat n fetched activeUrl userMessage u0 =
         (emit [Toast (js ''Rate limited'') (js ''Please try again later.'') destructive] u)
           \<lparr>isAssistantLoading := False\<rparr>"
  | resp where "fetched = Resolves resp" "r_status resp = 402"
      "streamAssistantChat n fetched activeUrl userMessage u0 =
         (emit [Toast (js ''Out of credits'') (js ''Please add credits.'') destructive] u)
           \<lparr>isAssistantLoading := False\<rparr>"
  | reads d where "read_loop n reads (decoder_start (assistantMessages u)) = Returned d"
      "streamAssistantChat n fetched activeUrl userMessage u0 =
         u\<lparr>assistantMessages := transcript d, isAssistantLoading := False\<rparr>"
  | reads d where "read_loop n reads (decoder_start (assistantMessages u)) = Thrown d"
      "streamAssistantChat n fetched activeUrl userMessage u0 =
         assistant_catch (u\<lparr>assistantMessages := transcript d\<rparr>)"
proof -
  have def: "streamAssistantChat n fetched activeUrl userMessage u0 =
     (case fetched of
           Rejects \<Rightarrow> assistant_catch u
         | Resolves resp \<Rightarrow>
             if r_status resp = 429 then
               (emit [Toast (js ''Rate limited'') (js ''Please try again later.'') destructive] u)
                 \<lparr>isAssistantLoading := False\<rparr>
             else if r_status resp = 402 then
               (emit [Toast (js ''Out of credits'') (js ''Please add credits.'') destructive] u)
                 \<lparr>isAssistantLoading := False\<rparr>
             else
               (case (if r_ok resp then r_body resp else None) of
                  None \<Rightarrow> assistant_catch u
                | Some reads \<Rightarrow>
                    (case read_loop n reads (decoder_start (assistantMessages u)) of
                       Returned d \<Rightarrow> u\<lparr>assistantMessages := transcript d, isAssistantLoading := False\<rparr>
                     | Thrown d \<Rightarrow> assistant_catch (u\<lparr>assistantMessages := transcript d\<rparr>))))"
    unfolding u_def assistant_request_def user_def streamAssistantChat_def Let_def by (rule refl)
  show thesis
  proof (cases fetched)
    case Rejects
    with def have "streamAssistantChat n fetched activeUrl userMessage u0 = assistant_catch u" by simp
    then show thesis by (rule that(1))
  next
    case (Resolves resp)
    consider (a) "r_status resp = 429" | (b) "r_status resp \<noteq> 429" "r_status resp = 402"
      | (c) "r_status resp \<noteq> 429" "r_status resp \<noteq> 402" "(if r_ok resp then r_body resp else None) = None"
      | (d) reads where "r_status resp \<noteq> 429" "r_status resp \<noteq> 402"
          "(if r_ok resp then r_body resp else None) = Some reads"
      by (cases "if r_ok resp then r_body resp else None") auto
    then show thesis
    proof cases
      case a
      with def Resolves have "streamAssistantChat n fetched activeUrl userMessage u0 =
         (emit [Toast (js ''Rate limited'') (js ''Please try again later.'') destructive] u)
           \<lparr>isAssistantLoading := False\<rparr>" by simp
      with Resolves a show thesis by (rule that(2))
    next
      case b
      with def Resolves have "streamAssistantChat n fetched activeUrl userMessage u0 =
         (emit [Toast (js ''Out of credits'') (js ''Please add credits.'') destructive] u)
           \<lparr>isAssistantLoading := False\<rparr>" by simp
      with Resolves b(2) show thesis by (rule that(3))
    next
      case c
      with def Resolves have "streamAssistantChat n fetched activeUrl userMessage u0 = assistant_catch u"
        by simp
      then show thesis by (rule that(1))
    next
      case (d reads)
      show thesis
      proof (cases "read_loop n reads (decoder_start (assistantMessages u))")
        case (Returned x)
        with def Resolves d have "streamAssistantChat n fetched activeUrl userMessage u0 =
            u\<lparr>assistantMessages := transcript x, isAssistantLoading := False\<rparr>" by simp
        with Returned show thesis by (rule that(4))
      next
        case (Thrown x)
        with def Resolves d have "streamAssistantChat n fetched activeUrl userMessage u0 =
            assistant_catch (u\<lparr>assistantMessages := transcript x\<rparr>)" by simp
        with Thrown show thesis by (rule that(5))
      qed
    qed
  qed
qed

lemma streamAssistantChat_effects:
  "\<exists>rest. effects (streamAssistantChat n fetched activeUrl userMessage u)
            = effects u @ Post (assistant_request activeUrl userMessage u) # rest
         \<and> posts rest = 0 \<and> waits rest = []"
  by (cases rule: streamAssistantChat_cases [of n fetched activeUrl userMessage u]) simp_all

lemma streamAssistantChat_reply:
  "at_most_one_reply (assistantMessages u @ [user userMessage])
     (assistantMessages (streamAssistantChat n fetched activeUrl userMessage u))"
proof -
  have start: "at_most_one_reply (assistantMessages u @ [user userMessage])
                 (assistantMessages u @ [user userMessage])"
    by (simp add: at_most_one_reply_iff)
  have decoded: "at_most_one_reply (assistantMessages u @ [user userMessage]) (transcript d)"
    if "read_loop n reads (decoder_start (assistantMessages u @ [user userMessage])) = Returned d
      \<or> read_loop n reads (decoder_start (assistantMessages u @ [user userMessage])) = Thrown d"
    for reads d
    using that by (intro reply_decoded [OF start, of n reads d]) (simp_all add: user_def)
  show ?thesis
    by (cases rule: streamAssistantChat_cases [of n fetched activeUrl userMessage u])
       (auto simp: start intro!: decoded)
qed

lemma read_loop_hello:
  "read_loop n
     (Chunk (js ''data: {\"choices\":[{\"delta\":{\"content\":\"He\"}}]}'' @ [10])
      # Chunk (js ''data: {\"choices\":[{\"delta\":{\"content\":\"llo\"}}]}'' @ [10])
      # Chunk (js ''data: [DONE]'' @ [10]) # rest) (decoder_start t)
  = Returned \<lparr>textBuffer = [], streamDone = True, assistantContent = js ''Hello'',
       transcript = fold_delta (js ''Hello'') (fold_delta (js ''He'') t)\<rparr>"
  by (cases rest) (simp_all add: decode_defs)

section \<open>The relay proxy: claims\<close>

text \<open>
  Claim C2, as the code has it. When the upstream answers the first \<open>N\<close> calls of an
  invocation with 429 (and, if \<open>N < 3\<close>, the next one with an OK status), the proxy makes
  exactly \<open>min 3 N\<close> rate-limited attempts, each followed by one sleep, and then either
  succeeds (\<open>N < 3\<close>, on attempt \<open>N + 1\<close>) or answers the terminal 429. The delay
  slept after the attempt with index \<open>k\<close> (counted from 0) is the \<^verbatim>\<open>retry-after\<close>
  value when the header is present and its number is neither \<open>NaN\<close> nor \<open>0\<close>, and
  \<open>(k + 1) * 800\<close> otherwise: a header that reads as \<open>0\<close> is falsy for \<^verbatim>\<open>||\<close>.
\<close>

theorem proxy_rate_limit_attempts:
  fixes req :: "'m request"
  assumes "configured key" and "req_method req \<noteq> js ''OPTIONS''" and "req_json req = Inr (Iterable ms)"
    and "\<forall>k < min maxRetries N. up k = Responds (rs k) \<and> u_status (rs k) = 429"
    and "N < maxRetries \<longrightarrow> up N = Responds (rs N) \<and> u_ok (rs N)"
  shows "serve_handler key up req =
           (if N < maxRetries then success_response flash (u_body (rs N)) else rate_limits_exceeded,
            concat (map (\<lambda>k. [Fetch flash ms, Sleep (retryAfter (u_retry_after (rs k)) k)])
                      [0..<min maxRetries N])
            @ (if N < maxRetries then [Fetch flash ms] else []))
       \<and> length (slept (snd (serve_handler key up req))) = min maxRetries N
       \<and> length (requested (snd (serve_handler key up req))) = min maxRetries (N + 1)
       \<and> (\<forall>k < min maxRetries N.
            slept (snd (serve_handler key up req)) ! k =
              (case u_retry_after (rs k) of
                 None \<Rightarrow> Fin (of_nat ((k + 1) * 800))
               | Some v \<Rightarrow> if v = NaN \<or> v = Fin 0 then Fin (of_nat ((k + 1) * 800)) else v))"
proof -
  let ?M = "min maxRetries N"
  let ?turns = "concat (map (\<lambda>k. [Fetch flash ms, Sleep (retryAfter (u_retry_after (rs k)) k)]) [0..<?M])"
  have "\<forall>k. 0 \<le> k \<and> k < ?M \<longrightarrow> up k = Responds (rs k) \<and> u_status (rs k) = 429"
    using assms(4) by simp
  from retry_loop_limited_run [OF _ _ this, of ms flash False "[]"]
  have run: "retry_loop up (Iterable ms) 0 flash False [] = retry_loop up (Iterable ms) ?M flash False ?turns"
    by simp
  have loop: "retry_loop up (Iterable ms) 0 flash False [] =
      (Inr (if N < maxRetries then success_response flash (u_body (rs N)) else rate_limits_exceeded),
       ?turns @ (if N < maxRetries then [Fetch flash ms] else []))"
  proof (cases "N < maxRetries")
    case True
    then have "?M = N" by simp
    with True assms(5) run show ?thesis by (simp add: retry_loop_ok)
  next
    case False
    then have "?M = maxRetries" by simp
    with False run show ?thesis by (simp add: retry_loop_exhausted)
  qed
  have H: "serve_handler key up req =
      (if N < maxRetries then success_response flash (u_body (rs N)) else rate_limits_exceeded,
       ?turns @ (if N < maxRetries then [Fetch flash ms] else []))"
    by (simp add: serve_handler_run [OF assms(2,3,1)] loop)
  have sl: "slept (snd (serve_handler key up req)) = map (\<lambda>k. retryAfter (u_retry_after (rs k)) k) [0..<?M]"
    by (simp add: H slept_turns)
  have rq: "length (requested (snd (serve_handler key up req))) = min maxRetries (N + 1)"
    by (simp add: H requested_turns maxRetries_def)
  have "slept (snd (serve_handler key up req)) ! k =
              (case u_retry_after (rs k) of
                 None \<Rightarrow> Fin (of_nat ((k + 1) * 800))
               | Some v \<Rightarrow> if v = NaN \<or> v = Fin 0 then Fin (of_nat ((k + 1) * 800)) else v)"
    if "k < ?M" for k
    using that by (simp add: sl retryAfter_def truthy_num_def split: option.split)
  with H sl rq show ?thesis by simp
qed

text \<open>A run with two rate-limited answers, the first with \<^verbatim>\<open>retry-after: 5\<close>.\<close>

theorem proxy_rate_limit_attempts_witness:
  "serve_handler (Some (js ''key'')) (answers [answer 429 (Some (Fin 5)), answer 429 None, answer 200 None])
       (post (Inr hi))
     = (success_response flash (js ''data: [DONE]''),
        [Fetch flash [js ''hi''], Sleep (Fin 5), Fetch flash [js ''hi''], Sleep (Fin 1600),
         Fetch flash [js ''hi'']])"
proof -
  let ?up = "answers [answer 429 (Some (Fin 5)), answer 429 None, answer 200 None]"
  let ?rs = "\<lambda>k::nat. \<lparr>u_status = (if k < 2 then 429 else 200),
                    u_retry_after = (if k = 0 then Some (Fin 5) else None),
                    u_body = js ''data: [DONE]'', u_text = Inr (js ''upstream says no'')\<rparr>"
  have 1: "configured (Some (js ''key''))" by (simp add: configured_def)
  have 2: "req_method (post (Inr hi)) \<noteq> js ''OPTIONS''" by (simp add: post_def)
  have 3: "req_json (post (Inr hi)) = Inr (Iterable [js ''hi''])" by (simp add: post_def hi_def)
  have 4: "\<forall>k < min maxRetries 2. ?up k = Responds (?rs k) \<and> u_status (?rs k) = 429"
    by (simp add: answers_def answer_def maxRetries_def less_Suc_eq numeral_2_eq_2)
  have 5: "2 < maxRetries \<longrightarrow> ?up 2 = Responds (?rs 2) \<and> u_ok (?rs 2)"
    by (simp add: answers_def answer_def u_ok_def)
  from proxy_rate_limit_attempts [OF 1 2 3 4 5, THEN conjunct1]
  show ?thesis
    by (simp add: maxRetries_def retryAfter_def truthy_num_def numeral_2_eq_2 upt_conv_Cons)
qed

text \<open>
  The claim as stated fails for a header that is present and numeric but zero: with
  \<^verbatim>\<open>retry-after: 0\<close> on the first attempt the proxy sleeps 800, not 0.
\<close>

theorem proxy_retry_after_zero_counterexample:
  "answers [answer 429 (Some (Fin 0)), answer 200 None] 0 = answer 429 (Some (Fin 0))
   \<and> slept (snd (serve_handler (Some (js ''key'')) (answers [answer 429 (Some (Fin 0)), answer 200 None])
                    (post (Inr hi)))) = [Fin 800]
   \<and> slept (snd (serve_handler (Some (js ''key'')) (answers [answer 429 (Some (Fin 0)), answer 200 None])
                    (post (Inr hi)))) \<noteq> [Fin 0]"
  by (simp add: run_defs)

text \<open>
  Claim C3, as the code has it. The upstream calls of one invocation ask for the primary model
  some number of times and then for the cheaper model some number of times, at most three calls
  in all: there is at most one downgrade. A 402 received with \<open>triedLite\<close> false switches
  the model and sets the flag, with no sleep; it uses up an attempt, so the retry (the next
  effect is the call with the cheaper model) happens when an attempt is left. A 402 received
  with \<open>triedLite\<close> true returns the payment-required response; so does every 402 of a
  run that comes after an earlier 402, and it is the last call of the run.
\<close>

theorem proxy_single_downgrade:
  fixes req :: "'m request"
  shows "(\<exists>a b. requested (snd (serve_handler key up req)) = replicate a flash @ replicate b flash_lite
            \<and> a + b \<le> maxRetries)
    \<and> (attempt < maxRetries \<and> up attempt = Responds r \<and> u_status r = 402 \<longrightarrow>
          retry_loop up (Iterable ms) attempt model False trace
            = retry_loop up (Iterable ms) (attempt + 1) flash_lite True (trace @ [Fetch model ms])
          \<and> (attempt + 1 < maxRetries \<longrightarrow>
                (\<exists>res rest. retry_loop up (Iterable ms) attempt model False trace
                    = (res, trace @ [Fetch model ms, Fetch flash_lite ms] @ rest)))
          \<and> retry_loop up (Iterable ms) attempt model True trace
               = (Inr payment_required, trace @ [Fetch model ms]))
    \<and> (j < k \<and> k < length (requested (snd (serve_handler key up req)))
          \<and> up j = Responds r1 \<and> u_status r1 = 402 \<and> up k = Responds r2 \<and> u_status r2 = 402 \<longrightarrow>
          fst (serve_handler key up req) = payment_required
          \<and> length (requested (snd (serve_handler key up req))) = k + 1)"
proof (intro conjI impI)
  show "\<exists>a b. requested (snd (serve_handler key up req)) = replicate a flash @ replicate b flash_lite
            \<and> a + b \<le> maxRetries"
  proof (cases "requested (snd (serve_handler key up req)) = []")
    case True
    then have "requested (snd (serve_handler key up req)) = replicate 0 flash @ replicate 0 flash_lite
        \<and> 0 + 0 \<le> maxRetries" by simp
    then show ?thesis by blast
  next
    case False
    from serve_handler_calls [OF this] obtain msgs :: "'m messages" where
      "requested (snd (serve_handler key up req)) = requested (snd (retry_loop up msgs 0 flash False []))"
      by blast
    with retry_loop_models [of up msgs 0 flash False] show ?thesis by simp
  qed
next
  assume a: "attempt < maxRetries \<and> up attempt = Responds r \<and> u_status r = 402"
  then show step: "retry_loop up (Iterable ms) attempt model False trace
            = retry_loop up (Iterable ms) (attempt + 1) flash_lite True (trace @ [Fetch model ms])"
    by (simp add: retry_loop_402_first)
  show "retry_loop up (Iterable ms) attempt model True trace = (Inr payment_required, trace @ [Fetch model ms])"
    using a by (simp add: retry_loop_402_again)
  show "\<exists>res rest. retry_loop up (Iterable ms) attempt model False trace
                    = (res, trace @ [Fetch model ms, Fetch flash_lite ms] @ rest)"
    if "attempt + 1 < maxRetries"
    using retry_loop_first_fetch [OF that, of up ms flash_lite True "trace @ [Fetch model ms]"] step
    by simp
next
  assume a: "j < k \<and> k < length (requested (snd (serve_handler key up req)))
          \<and> up j = Responds r1 \<and> u_status r1 = 402 \<and> up k = Responds r2 \<and> u_status r2 = 402"
  then have "requested (snd (serve_handler key up req)) \<noteq> []" by auto
  from serve_handler_calls [OF this] obtain msgs :: "'m messages" where
    req: "requested (snd (serve_handler key up req)) = requested (snd (retry_loop up msgs 0 flash False []))"
    and res: "\<And>resp. fst (retry_loop up msgs 0 flash False []) = Inr resp
           \<Longrightarrow> fst (serve_handler key up req) = resp"
    by blast
  have "False \<or> (\<exists>j<k. \<exists>r'. up (0 + j) = Responds r' \<and> u_status r' = 402)" using a by auto
  from retry_loop_402_ends [of k up msgs 0 flash False r2, OF _ _ _ this] a req
  have "fst (retry_loop up msgs 0 flash False []) = Inr payment_required"
    and len: "length (requested (snd (serve_handler key up req))) = k + 1"
    by simp_all
  from res [OF this(1)] show "fst (serve_handler key up req) = payment_required" .
  from len show "length (requested (snd (serve_handler key up req))) = k + 1" .
qed

text \<open>A run with two quota answers: one downgrade, then the payment-required response.\<close>

theorem proxy_single_downgrade_witness:
  "serve_handler (Some (js ''key'')) (answers [answer 402 None, answer 402 None]) (post (Inr hi))
     = (payment_required, [Fetch flash [js ''hi''], Fetch flash_lite [js ''hi'']])"
proof -
  let ?up = "answers [answer 402 None, answer 402 None]"
  let ?r = "\<lparr>u_status = 402, u_retry_after = None, u_body = js ''data: [DONE]'',
             u_text = Inr (js ''upstream says no'')\<rparr>"
  let ?H = "serve_handler (Some (js ''key'')) ?up (post (Inr hi))"
  have tr: "snd ?H = [Fetch flash [js ''hi''], Fetch flash_lite [js ''hi'']]"
    by (simp add: run_defs)
  have a: "0 < maxRetries \<and> ?up 0 = Responds ?r \<and> u_status ?r = 402"
    by (simp add: maxRetries_def answers_def answer_def)
  have b: "0 < (1::nat) \<and> 1 < length (requested (snd ?H))
      \<and> ?up 0 = Responds ?r \<and> u_status ?r = 402 \<and> ?up 1 = Responds ?r \<and> u_status ?r = 402"
    by (simp add: run_defs)
  from proxy_single_downgrade [of "Some (js ''key'')" ?up "post (Inr hi)" 0 ?r "[js ''hi'']" flash "[]"
      0 1 ?r ?r] a b
  have "fst ?H = payment_required" by blast
  with tr show ?thesis by (simp only: prod_eq_iff fst_conv snd_conv simp_thms)
qed

text \<open>
  The claim as stated fails when the first 402 arrives on the third attempt: the model is
  switched, but there is no retry; the run ends with the rate-limit response and the cheaper
  model is never requested.
\<close>

theorem proxy_downgrade_on_last_attempt_counterexample:
  "answers [answer 429 None, answer 429 None, answer 402 None] 2 = answer 402 None
   \<and> serve_handler (Some (js ''key'')) (answers [answer 429 None, answer 429 None, answer 402 None])
       (post (Inr hi))
     = (rate_limits_exceeded,
        [Fetch flash [js ''hi''], Sleep (Fin 800), Fetch flash [js ''hi''], Sleep (Fin 1600),
         Fetch flash [js ''hi'']])
   \<and> flash_lite \<notin> set (requested (snd (serve_handler (Some (js ''key''))
            (answers [answer 429 None, answer 429 None, answer 402 None]) (post (Inr hi)))))"
  by (simp add: run_defs flash_def flash_lite_def)

text \<open>
  Claim C5. In any run of the handler, when call \<open>k\<close> (counted from 0) to the upstream was
  made and answered with an OK status, the handler's response is the pass-through of that
  answer: status 200, the upstream's body stream itself, \<^verbatim>\<open>Content-Type: text/event-stream\<close>,
  and \<^verbatim>\<open>x-model-used\<close> equal to the model that call \<open>k\<close> asked for, which is one of
  the two configured models; and call \<open>k\<close> is the last call of the run.
\<close>

theorem proxy_success_pass_through:
  fixes req :: "'m request"
  assumes "serve_handler key up req = (resp, trace)"
    and "k < length (requested trace)"
    and "up k = Responds r" and "u_ok r"
  shows "resp = success_response (requested trace ! k) (u_body r)
       \<and> status resp = 200
       \<and> body resp = Stream (u_body r)
       \<and> map_of (headers resp) (js ''Content-Type'') = Some (js ''text/event-stream'')
       \<and> map_of (headers resp) (js ''x-model-used'') = Some (requested trace ! k)
       \<and> requested trace ! k \<in> {flash, flash_lite}
       \<and> length (requested trace) = k + 1"
proof -
  from assms(1) have H: "fst (serve_handler key up req) = resp" "snd (serve_handler key up req) = trace"
    by simp_all
  with assms(2) have "requested (snd (serve_handler key up req)) \<noteq> []" by auto
  from serve_handler_calls [OF this] obtain msgs :: "'m messages" where
    req: "requested trace = requested (snd (retry_loop up msgs 0 flash False []))"
    and res: "\<And>resp'. fst (retry_loop up msgs 0 flash False []) = Inr resp' \<Longrightarrow> resp = resp'"
    unfolding H by blast
  from retry_loop_ok_ends [of k up msgs 0 flash False r] assms(2,3,4) req
  have 1: "fst (retry_loop up msgs 0 flash False []) = Inr (success_response (requested trace ! k) (u_body r))"
    and 2: "length (requested trace) = k + 1"
    by simp_all
  from res [OF 1] have 3: "resp = success_response (requested trace ! k) (u_body r)" .
  from retry_loop_models [of up msgs 0 flash False] req obtain a b where
    "requested trace = replicate a flash @ replicate b flash_lite" by auto
  then have "set (requested trace) \<subseteq> {flash, flash_lite}" by auto
  with assms(2) have 4: "requested trace ! k \<in> {flash, flash_lite}"
    using nth_mem by blast
  show ?thesis using 2 3 4 by (simp add: success_response_def corsHeaders_def)
qed

text \<open>A run that is rate-limited once and then succeeds.\<close>

theorem proxy_success_pass_through_witness:
  "serve_handler (Some (js ''key'')) (answers [answer 429 None, answer 200 None]) (post (Inr hi))
     = (success_response flash (js ''data: [DONE]''),
        [Fetch flash [js ''hi''], Sleep (Fin 800), Fetch flash [js ''hi'']])
   \<and> map_of (headers (success_response flash (js ''data: [DONE]'') :: jstring response)) (js ''x-model-used'')
       = Some flash"
proof -
  let ?up = "answers [answer 429 None, answer 200 None]"
  let ?r = "\<lparr>u_status = 200, u_retry_after = None, u_body = js ''data: [DONE]'',
             u_text = Inr (js ''upstream says no'')\<rparr>"
  have run: "serve_handler (Some (js ''key'')) ?up (post (Inr hi))
     = (success_response flash (js ''data: [DONE]''),
        [Fetch flash [js ''hi''], Sleep (Fin 800), Fetch flash [js ''hi'']])"
    by (simp add: run_defs)
  have k: "1 < length (requested [Fetch flash [js ''hi''], Sleep (Fin 800), Fetch flash [js ''hi'']])"
    by simp
  have a: "?up 1 = Responds ?r" by (simp add: answers_def answer_def)
  have ok: "u_ok ?r" by (simp add: u_ok_def)
  from proxy_success_pass_through [OF run k a ok] run
  show ?thesis by simp
qed

text \<open>
  Claim C9, as the code has it. With no credential configured, a request that is not a
  preflight gets status 500 and no upstream call is made. The body is read first
  (line 12), the credential is checked second (line 14): a request whose body gives a
  \<open>msgs\<close> value is answered with the configuration error's message, and a request
  whose body cannot be read as JSON is answered with the message of that error.
\<close>

theorem proxy_missing_credential:
  assumes "\<not> configured key" and "req_method req \<noteq> js ''OPTIONS''"
  shows "(\<forall>msgs. req_json req = Inr msgs \<longrightarrow>
            serve_handler key up req
              = (error_response 500 (js ''LOVABLE_API_KEY is not configured''),
                 [LogChatError (js ''LOVABLE_API_KEY is not configured'')]))
       \<and> (\<forall>e. req_json req = Inl e \<longrightarrow>
            serve_handler key up req = (error_response 500 e, [LogChatError e]))
       \<and> status (fst (serve_handler key up req)) = 500
       \<and> requested (snd (serve_handler key up req)) = []"
  using assms by (cases "req_json req") (simp_all add: serve_handler_def error_response_def)

text \<open>A well-formed request without a credential.\<close>

theorem proxy_missing_credential_witness:
  "serve_handler None (answers [answer 200 None]) (post (Inr hi))
     = (error_response 500 (js ''LOVABLE_API_KEY is not configured''),
        [LogChatError (js ''LOVABLE_API_KEY is not configured'')])"
proof -
  have 1: "\<not> configured None" by (simp add: configured_def)
  have 2: "req_method (post (Inr hi)) \<noteq> js ''OPTIONS''" by (simp add: post_def)
  from proxy_missing_credential [OF 1 2, of "answers [answer 200 None]"]
  show ?thesis by (simp add: post_def)
qed

text \<open>
  The claim as stated fails for a request whose body is not JSON: the exception that the
  \<^verbatim>\<open>catch\<close> reports is the parse error, not the configuration error.
\<close>

theorem proxy_missing_credential_counterexample:
  "fst (serve_handler None (answers [answer 200 None])
          (post (Inl (js ''Unexpected end of JSON input'')) :: jstring list request))
     = error_response 500 (js ''Unexpected end of JSON input'')
   \<and> fst (serve_handler None (answers [answer 200 None])
          (post (Inl (js ''Unexpected end of JSON input'')) :: jstring list request))
     \<noteq> error_response 500 (js ''LOVABLE_API_KEY is not configured'')"
  by (simp add: run_defs error_response_def)

text \<open>
  Claim C10, as the code has it. In any run, when call \<open>k\<close> to the upstream was made and
  answered with a status that is neither OK, 429 nor 402, the run ends there with status 500.
  When the text of the upstream body is read, the response is the fixed
  \<^verbatim>\<open>{"error":"AI gateway error"}\<close>, so two such runs give the same response whatever the
  upstream status and text (and whatever else differs); when reading the body fails, the
  \<^verbatim>\<open>catch\<close> of line 81 answers 500 with that error's message.
\<close>

theorem proxy_gateway_error_fixed:
  fixes req :: "'m request" and req' :: "'n request"
  assumes "k < length (requested (snd (serve_handler key up req)))"
    and "up k = Responds r"
    and "\<not> u_ok r" and "u_status r \<noteq> 429" and "u_status r \<noteq> 402"
    and "k' < length (requested (snd (serve_handler key' up' req')))"
    and "up' k' = Responds r'"
    and "\<not> u_ok r'" and "u_status r' \<noteq> 429" and "u_status r' \<noteq> 402"
  shows "status (fst (serve_handler key up req)) = 500
       \<and> length (requested (snd (serve_handler key up req))) = k + 1
       \<and> (\<forall>t. u_text r = Inr t \<longrightarrow> fst (serve_handler key up req) = gateway_error)
       \<and> (\<forall>e. u_text r = Inl e \<longrightarrow> fst (serve_handler key up req) = error_response 500 e)
       \<and> (\<forall>t t'. u_text r = Inr t \<and> u_text r' = Inr t' \<longrightarrow>
            fst (serve_handler key up req) = fst (serve_handler key' up' req'))"
  using serve_handler_other [OF assms(1-5)] serve_handler_other [OF assms(6-10)]
  by (cases "u_text r") (auto simp: gateway_error_def error_response_def)

text \<open>Two runs that end in gateway errors with different statuses and texts.\<close>

theorem proxy_gateway_error_fixed_witness:
  "fst (serve_handler (Some (js ''key'')) (answers [failure 503 (Inr (js ''overloaded''))]) (post (Inr hi)))
     = gateway_error
   \<and> fst (serve_handler (Some (js ''key'')) (answers [answer 429 None, failure 500 (Inr (js ''boom''))])
            (post (Inr hi)))
     = gateway_error"
proof -
  let ?up = "answers [failure 503 (Inr (js ''overloaded''))]"
  let ?up' = "answers [answer 429 None, failure 500 (Inr (js ''boom''))]"
  let ?r = "\<lparr>u_status = 503, u_retry_after = None, u_body = [], u_text = Inr (js ''overloaded'')\<rparr>"
  let ?r' = "\<lparr>u_status = 500, u_retry_after = None, u_body = [], u_text = Inr (js ''boom'')\<rparr>"
  have 1: "0 < length (requested (snd (serve_handler (Some (js ''key'')) ?up (post (Inr hi)))))"
    by (simp add: run_defs)
  have 2: "?up 0 = Responds ?r" by (simp add: answers_def failure_def)
  have 3: "\<not> u_ok ?r" "u_status ?r \<noteq> 429" "u_status ?r \<noteq> 402" by (simp_all add: u_ok_def)
  have 4: "1 < length (requested (snd (serve_handler (Some (js ''key'')) ?up' (post (Inr hi)))))"
    by (simp add: run_defs)
  have 5: "?up' 1 = Responds ?r'" by (simp add: answers_def failure_def)
  have 6: "\<not> u_ok ?r'" "u_status ?r' \<noteq> 429" "u_status ?r' \<noteq> 402" by (simp_all add: u_ok_def)
  note fixed = proxy_gateway_error_fixed [OF 1 2 3 4 5 6]
  from fixed [THEN conjunct2, THEN conjunct2, THEN conjunct1]
  have A: "fst (serve_handler (Some (js ''key'')) ?up (post (Inr hi))) = gateway_error"
    by simp
  from fixed [THEN conjunct2, THEN conjunct2, THEN conjunct2, THEN conjunct2] have B: "fst (serve_handler (Some (js ''key'')) ?up (post (Inr hi)))
         = fst (serve_handler (Some (js ''key'')) ?up' (post (Inr hi)))"
    by simp
  from B [symmetric] A
  have C: "fst (serve_handler (Some (js ''key'')) ?up' (post (Inr hi))) = gateway_error"
    by (rule trans)
  from A C show ?thesis by (rule conjI)
qed

text \<open>
  The claim as stated fails when \<^verbatim>\<open>await response.text()\<close> rejects: the response carries
  the message of that error instead of the fixed body.
\<close>

theorem proxy_gateway_error_unreadable_counterexample:
  "answers [failure 503 (Inl (js ''connection reset''))] 0 = failure 503 (Inl (js ''connection reset''))
   \<and> fst (serve_handler (Some (js ''key'')) (answers [failure 503 (Inl (js ''connection reset''))])
            (post (Inr hi)))
     = error_response 500 (js ''connection reset'')
   \<and> fst (serve_handler (Some (js ''key'')) (answers [failure 503 (Inl (js ''connection reset''))])
            (post (Inr hi)))
     \<noteq> gateway_error"
  by (simp add: run_defs error_response_def gateway_error_def)

section \<open>The conversation client: claims\<close>

text \<open>
  Claim C1, as the code has it. When the relay answers each of the three calls of
  \<^verbatim>\<open>streamChat\<close> with 429, the call makes exactly three requests, with the notices and
  the sleeps of 700 and 1400 between them, ends with the terminal rate-limit toast and clears
  the loading flag. The transcript is the one before the call with the new user entry at its
  end, which line 51 puts there before the first request: no assistant entry is added.
\<close>

theorem streamChat_rate_limited_budget:
  assumes "\<forall>k<chat_maxRetries. \<exists>r. net k = Resolves r \<and> r_status r = 429"
  shows "streamChat n net userMessage u =
     u\<lparr>messages := messages u @ [user userMessage],
       isLoading := False,
       effects := effects u @
         [Post (messages u @ [user userMessage]),
          Toast (js ''Rate limited'') (js ''Retrying in 1s...'') None, Wait 700,
          Post (messages u @ [user userMessage]),
          Toast (js ''Rate limited'') (js ''Retrying in 1s...'') None, Wait 1400,
          Post (messages u @ [user userMessage]),
          Toast (js ''Rate limit exceeded'') (js ''Please try again a bit later.'') destructive]\<rparr>"
  unfolding streamChat_def Let_def user_def [symmetric]
  by (simp add: streamChat_loop_all_429 [OF assms])

text \<open>The run from the empty component.\<close>

theorem streamChat_rate_limited_budget_witness:
  "streamChat id always_limited (js ''hi'') ui_start =
     \<lparr>messages = [user (js ''hi'')], isLoading = False, assistantMessages = [],
      isAssistantLoading = False,
      effects =
        [Post [user (js ''hi'')], Toast (js ''Rate limited'') (js ''Retrying in 1s...'') None, Wait 700,
         Post [user (js ''hi'')], Toast (js ''Rate limited'') (js ''Retrying in 1s...'') None, Wait 1400,
         Post [user (js ''hi'')],
         Toast (js ''Rate limit exceeded'') (js ''Please try again a bit later.'') destructive]\<rparr>"
proof -
  have "\<forall>k<chat_maxRetries. \<exists>r. always_limited k = Resolves r \<and> r_status r = 429"
    by (simp add: always_limited_def)
  from streamChat_rate_limited_budget [OF this, of id "js ''hi''" ui_start]
  show ?thesis by (simp add: ui_start_def)
qed

text \<open>
  The claim as stated fails: the transcript is not the one before the call, it has the user's
  message.
\<close>

theorem streamChat_transcript_changed_counterexample:
  "messages (streamChat id always_limited (js ''hi'') ui_start) = [user (js ''hi'')]
   \<and> messages (streamChat id always_limited (js ''hi'') ui_start) \<noteq> messages ui_start"
proof -
  have "\<forall>k<chat_maxRetries. \<exists>r. always_limited k = Resolves r \<and> r_status r = 429"
    by (simp add: always_limited_def)
  from streamChat_loop_all_429 [OF this, of id "[user (js ''hi'')]"
      "ui_start\<lparr>messages := [user (js ''hi'')], isLoading := True\<rparr>"]
  show ?thesis by (simp add: streamChat_def ui_start_def user_def Let_def)
qed

text \<open>
  Claim C4, as the code has it. The first chunk has no line feed, so the inner loop takes no
  line off the buffer: nothing is parsed, nothing is pushed back, and the buffer holds the
  chunk as it came, with no line feed added. The second chunk completes the line, which is
  parsed once: the accumulator is \<^verbatim>\<open>hi\<close> and the transcript has had one update, which
  appends the assistant entry \<^verbatim>\<open>hi\<close> when the last entry was not an assistant's. The
  outer loop returns without an exception.
\<close>

theorem decoder_split_line:
  "feed n (js ''data: {\"choices\":[{\"delta\":{\"con'') (decoder_start t)
     = \<lparr>textBuffer = js ''data: {\"choices\":[{\"delta\":{\"con'', streamDone = False,
        assistantContent = [], transcript = t\<rparr>
   \<and> feed n (js ''tent\":\"hi\"}}]}'' @ [10])
       \<lparr>textBuffer = js ''data: {\"choices\":[{\"delta\":{\"con'', streamDone = False,
        assistantContent = [], transcript = t\<rparr>
     = \<lparr>textBuffer = [], streamDone = False, assistantContent = js ''hi'',
        transcript = fold_delta (js ''hi'') t\<rparr>
   \<and> read_loop n [Chunk (js ''data: {\"choices\":[{\"delta\":{\"con''),
                    Chunk (js ''tent\":\"hi\"}}]}'' @ [10])] (decoder_start t)
     = Returned \<lparr>textBuffer = [], streamDone = False, assistantContent = js ''hi'',
         transcript = fold_delta (js ''hi'') t\<rparr>
   \<and> (t = [] \<or> role (last t) \<noteq> Assistant \<longrightarrow> fold_delta (js ''hi'') t = t @ [assistant (js ''hi'')])"
proof (intro conjI impI)
  show 1: "feed n (js ''data: {\"choices\":[{\"delta\":{\"con'') (decoder_start t)
     = \<lparr>textBuffer = js ''data: {\"choices\":[{\"delta\":{\"con'', streamDone = False,
        assistantContent = [], transcript = t\<rparr>"
    by (simp add: decode_defs)
  show 2: "feed n (js ''tent\":\"hi\"}}]}'' @ [10])
       \<lparr>textBuffer = js ''data: {\"choices\":[{\"delta\":{\"con'', streamDone = False,
        assistantContent = [], transcript = t\<rparr>
     = \<lparr>textBuffer = [], streamDone = False, assistantContent = js ''hi'',
        transcript = fold_delta (js ''hi'') t\<rparr>"
    by (simp add: decode_defs)
  show "read_loop n [Chunk (js ''data: {\"choices\":[{\"delta\":{\"con''),
                    Chunk (js ''tent\":\"hi\"}}]}'' @ [10])] (decoder_start t)
     = Returned \<lparr>textBuffer = [], streamDone = False, assistantContent = js ''hi'',
         transcript = fold_delta (js ''hi'') t\<rparr>"
    using 1 2 by (simp add: decoder_start_def)
  show "fold_delta (js ''hi'') t = t @ [assistant (js ''hi'')]" if "t = [] \<or> role (last t) \<noteq> Assistant"
    using that by (simp add: fold_delta_append assistant_def)
qed

text \<open>The two chunks after a user's message.\<close>

theorem decoder_split_line_witness:
  "read_loop id [Chunk (js ''data: {\"choices\":[{\"delta\":{\"con''),
                 Chunk (js ''tent\":\"hi\"}}]}'' @ [10])] (decoder_start [user (js ''hello'')])
     = Returned \<lparr>textBuffer = [], streamDone = False, assistantContent = js ''hi'',
         transcript = [user (js ''hello''), assistant (js ''hi'')]\<rparr>"
  using decoder_split_line [of id "[user (js ''hello'')]"]
  by (simp add: user_def)

text \<open>
  The claim as stated fails: after the first chunk the buffer is the chunk, not the chunk
  followed by a line feed.
\<close>

theorem decoder_no_push_back_counterexample:
  "textBuffer (feed id (js ''data: {\"choices\":[{\"delta\":{\"con'') (decoder_start []))
     = js ''data: {\"choices\":[{\"delta\":{\"con''
   \<and> textBuffer (feed id (js ''data: {\"choices\":[{\"delta\":{\"con'') (decoder_start []))
     \<noteq> js ''data: {\"choices\":[{\"delta\":{\"con'' @ [10]"
  by (simp add: decode_defs)

text \<open>
  Claim C6. The updater replaces the content of a last entry that is an assistant's, in
  place, and appends an assistant entry otherwise. While one stream is decoded, from a
  transcript \<open>t\<close>, the transcript is \<open>t\<close> or \<open>t\<close> with the accumulated reply folded
  in once: at the start, after every chunk, and at the end of the loop, whether it returns or
  a read throws. So after \<^verbatim>\<open>streamChat\<close> (retries included) and after
  \<^verbatim>\<open>streamAssistantChat\<close> the transcript is the one sent, or the one sent and a single
  assistant entry.
\<close>

theorem transcript_fold_invariant:
  "(prev \<noteq> [] \<and> role (last prev) = Assistant \<longrightarrow>
      fold_delta acc prev = butlast prev @ [assistant acc]
      \<and> length (fold_delta acc prev) = length prev)
   \<and> (prev = [] \<or> role (last prev) \<noteq> Assistant \<longrightarrow> fold_delta acc prev = prev @ [assistant acc])
   \<and> one_reply t (decoder_start t)
   \<and> (one_reply t d \<longrightarrow> one_reply t (feed n chunk d))
   \<and> (read_loop n reads (decoder_start t) = Returned d' \<or> read_loop n reads (decoder_start t) = Thrown d'
        \<longrightarrow> one_reply t d')
   \<and> at_most_one_reply (messages u @ [user userMessage]) (messages (streamChat n net userMessage u))
   \<and> at_most_one_reply (assistantMessages u @ [user userMessage])
         (assistantMessages (streamAssistantChat n fetched activeUrl userMessage u))"
proof (intro conjI impI)
  assume a: "prev \<noteq> [] \<and> role (last prev) = Assistant"
  then show r: "fold_delta acc prev = butlast prev @ [assistant acc]"
    by (simp add: fold_delta_replace assistant_def)
  from a show "length (fold_delta acc prev) = length prev" by (simp add: r)
next
  assume "prev = [] \<or> role (last prev) \<noteq> Assistant"
  then show "fold_delta acc prev = prev @ [assistant acc]"
    by (simp add: fold_delta_append assistant_def)
next
  show "one_reply t (decoder_start t)" by (rule one_reply_start)
next
  assume "one_reply t d"
  then show "one_reply t (feed n chunk d)" by (rule feed_one_reply)
next
  assume "read_loop n reads (decoder_start t) = Returned d' \<or> read_loop n reads (decoder_start t) = Thrown d'"
  with one_reply_start show "one_reply t d'" by (rule read_loop_one_reply)
next
  show "at_most_one_reply (messages u @ [user userMessage]) (messages (streamChat n net userMessage u))"
    by (rule streamChat_reply)
next
  show "at_most_one_reply (assistantMessages u @ [user userMessage])
         (assistantMessages (streamAssistantChat n fetched activeUrl userMessage u))"
    by (rule streamAssistantChat_reply)
qed

text \<open>A replacement, an append, and the invariant after a chunk.\<close>

theorem transcript_fold_invariant_witness:
  "fold_delta (js ''Hello'') [user (js ''hi''), assistant (js ''He'')]
     = [user (js ''hi''), assistant (js ''Hello'')]
   \<and> fold_delta (js ''He'') [user (js ''hi'')] = [user (js ''hi''), assistant (js ''He'')]
   \<and> one_reply [user (js ''hi'')]
        (feed id (js ''data: [DONE]'' @ [10]) (decoder_start [user (js ''hi'')]))"
proof -
  note inv = transcript_fold_invariant [of _ _ "[user (js ''hi'')]" "decoder_start [user (js ''hi'')]" id
      "js ''data: [DONE]'' @ [10]" "[]" "decoder_start [user (js ''hi'')]" ui_start "js ''hi''"
      always_limited Rejects None]
  from inv [of "[user (js ''hi''), assistant (js ''He'')]" "js ''Hello''"]
  have 1: "fold_delta (js ''Hello'') [user (js ''hi''), assistant (js ''He'')]
     = [user (js ''hi''), assistant (js ''Hello'')]"
    by (simp add: user_def assistant_def)
  from inv [of "[user (js ''hi'')]" "js ''He''"]
  have 2: "fold_delta (js ''He'') [user (js ''hi'')] = [user (js ''hi''), assistant (js ''He'')]"
    by (simp add: user_def assistant_def)
  from inv [of "[]" "[]"]
  have 3: "one_reply [user (js ''hi'')]
        (feed id (js ''data: [DONE]'' @ [10]) (decoder_start [user (js ''hi'')]))"
    by blast
  from 1 2 3 show ?thesis by (intro conjI)
qed

text \<open>
  Claim C7. From a transcript whose last entry is not an assistant's, the three lines, one
  chunk each, leave one new assistant entry with the content \<^verbatim>\<open>Hello\<close>; the sentinel
  sets \<open>streamDone\<close> and the loop returns without reading what the body holds after it
  (\<open>rest\<close>).
\<close>

theorem decoder_hello_done:
  assumes "t = [] \<or> role (last t) \<noteq> Assistant"
  shows "read_loop n
     (Chunk (js ''data: {\"choices\":[{\"delta\":{\"content\":\"He\"}}]}'' @ [10])
      # Chunk (js ''data: {\"choices\":[{\"delta\":{\"content\":\"llo\"}}]}'' @ [10])
      # Chunk (js ''data: [DONE]'' @ [10]) # rest) (decoder_start t)
    = Returned \<lparr>textBuffer = [], streamDone = True, assistantContent = js ''Hello'',
        transcript = t @ [assistant (js ''Hello'')]\<rparr>"
  unfolding read_loop_hello fold_delta_again using assms by (simp add: fold_delta_append assistant_def)

text \<open>The three lines after a user's message, with a fourth chunk that is never read.\<close>

theorem decoder_hello_done_witness:
  "read_loop id
     [Chunk (js ''data: {\"choices\":[{\"delta\":{\"content\":\"He\"}}]}'' @ [10]),
      Chunk (js ''data: {\"choices\":[{\"delta\":{\"content\":\"llo\"}}]}'' @ [10]),
      Chunk (js ''data: [DONE]'' @ [10]),
      Chunk (js ''data: {\"choices\":[{\"delta\":{\"content\":\"!\"}}]}'' @ [10])]
     (decoder_start [user (js ''hi'')])
    = Returned \<lparr>textBuffer = [], streamDone = True, assistantContent = js ''Hello'',
        transcript = [user (js ''hi''), assistant (js ''Hello'')]\<rparr>"
proof -
  have "[user (js ''hi'')] = [] \<or> role (last [user (js ''hi'')]) \<noteq> Assistant"
    by (simp add: user_def)
  from decoder_hello_done [OF this, of id
      "[Chunk (js ''data: {\"choices\":[{\"delta\":{\"content\":\"!\"}}]}'' @ [10])]"]
  show ?thesis by simp
qed

text \<open>
  Claim C8. \<^verbatim>\<open>streamAssistantChat\<close> sends exactly one request and never sleeps, whatever
  the relay answers. On a 429 it shows the terminal toast, clears its loading flag and
  returns, with the user's message in its transcript. \<^verbatim>\<open>streamChat\<close>, on a relay
  that answers 429 each time, sends three requests and sleeps twice.
\<close>

theorem streamAssistantChat_single_attempt:
  "posts (effects (streamAssistantChat n fetched activeUrl userMessage u)) = posts (effects u) + 1
   \<and> waits (effects (streamAssistantChat n fetched activeUrl userMessage u)) = waits (effects u)
   \<and> (fetched = Resolves resp \<and> r_status resp = 429 \<longrightarrow>
        streamAssistantChat n fetched activeUrl userMessage u =
          u\<lparr>assistantMessages := assistantMessages u @ [user userMessage],
            isAssistantLoading := False,
            effects := effects u @
              [Post (assistant_request activeUrl userMessage u),
               Toast (js ''Rate limited'') (js ''Please try again later.'') destructive]\<rparr>)
   \<and> ((\<forall>k<chat_maxRetries. \<exists>r. net k = Resolves r \<and> r_status r = 429) \<longrightarrow>
        posts (effects (streamChat n net userMessage u)) = posts (effects u) + 3
        \<and> waits (effects (streamChat n net userMessage u)) = waits (effects u) @ [700, 1400])"
proof (intro conjI impI)
  from streamAssistantChat_effects [of n fetched activeUrl userMessage u]
  obtain rest where
    "effects (streamAssistantChat n fetched activeUrl userMessage u)
       = effects u @ Post (assistant_request activeUrl userMessage u) # rest"
    "posts rest = 0" "waits rest = []"
    by blast
  then show "posts (effects (streamAssistantChat n fetched activeUrl userMessage u)) = posts (effects u) + 1"
    and "waits (effects (streamAssistantChat n fetched activeUrl userMessage u)) = waits (effects u)"
    by simp_all
next
  assume "fetched = Resolves resp \<and> r_status resp = 429"
  then show "streamAssistantChat n fetched activeUrl userMessage u =
          u\<lparr>assistantMessages := assistantMessages u @ [user userMessage],
            isAssistantLoading := False,
            effects := effects u @
              [Post (assistant_request activeUrl userMessage u),
               Toast (js ''Rate limited'') (js ''Please try again later.'') destructive]\<rparr>"
    by (simp add: streamAssistantChat_def assistant_request_def user_def emit_def)
next
  assume a: "\<forall>k<chat_maxRetries. \<exists>r. net k = Resolves r \<and> r_status r = 429"
  show "posts (effects (streamChat n net userMessage u)) = posts (effects u) + 3"
    and "waits (effects (streamChat n net userMessage u)) = waits (effects u) @ [700, 1400]"
    unfolding streamChat_def Let_def by (simp_all add: streamChat_loop_all_429 [OF a])
qed

text \<open>Both drivers against a relay that always answers 429.\<close>

theorem streamAssistantChat_single_attempt_witness:
  "streamAssistantChat id (always_limited 0) None (js ''hi'') ui_start =
     \<lparr>messages = [], isLoading = False, assistantMessages = [user (js ''hi'')],
      isAssistantLoading = False,
      effects = [Post (assistant_request None (js ''hi'') ui_start),
                 Toast (js ''Rate limited'') (js ''Please try again later.'') destructive]\<rparr>
   \<and> waits (effects (streamChat id always_limited (js ''hi'') ui_start)) = [700, 1400]"
proof -
  have 1: "always_limited 0 = Resolves \<lparr>r_status = 429, r_body = None, r_model_used = None\<rparr>
      \<and> r_status \<lparr>r_status = 429, r_body = None, r_model_used = None\<rparr> = 429"
    by (simp add: always_limited_def)
  have 2: "\<forall>k<chat_maxRetries. \<exists>r. always_limited k = Resolves r \<and> r_status r = 429"
    by (simp add: always_limited_def)
  from streamAssistantChat_single_attempt [of id "always_limited 0" None "js ''hi''" ui_start
      "\<lparr>r_status = 429, r_body = None, r_model_used = None\<rparr>" always_limited] 1 2
  show ?thesis by (simp add: ui_start_def)
qed

end
